theory Spec2Isabelle
  imports Complex_Main "HOL-Library.Multiset"
begin

section \<open>Data model of \<^verbatim>\<open>layer.cu\<close>\<close>

text \<open>
  The layer graph is embedded as an explicit store: a layer pointer \<^verbatim>\<open>Layer*\<close> is a
  natural number, the store maps it to the layer object. Every member function takes the
  store and returns the new one. Matrices (\<^verbatim>\<open>NVMatrix\<close>) are values of a type
  parameter \<open>'m\<close>; the matrix library and the compute kernels are not part of
  \<^verbatim>\<open>layer.cu\<close> and are taken as a parameter, the record \<open>backend\<close>, one field per
  library function that \<^verbatim>\<open>layer.cu\<close> calls. Scalars of type \<^verbatim>\<open>float\<close> are modelled as
  \<open>real\<close> (rounding is not modelled), the \<^verbatim>\<open>int\<close> counters as \<open>int\<close> (signed overflow
  is undefined behaviour in the source and is not modelled).
\<close>

datatype PASS_TYPE = PASS_TRAIN | PASS_TEST | PASS_GC

text \<open>The concrete classes derived from \<^verbatim>\<open>Layer\<close>.\<close>

datatype kind =
    FCLayer | ConvLayer | SoftmaxLayer | DataLayer | PoolLayer
  | ResponseNormLayer | ContrastNormLayer | LogregCostLayer

text \<open>
  What makes a call leave abnormally: the two \<^verbatim>\<open>throw string(...)\<close> of the file that
  happen inside the passes or the factory, a failed \<^verbatim>\<open>assert\<close>, and the undefined
  behaviour of the source (an index outside a \<^verbatim>\<open>std::vector\<close>, a call through the null
  pointer that a failed \<^verbatim>\<open>dynamic_cast\<close> returns, an integer division by zero).
\<close>

datatype error =
    NoDataGiven
  | UnknownCostLayerType string
  | UnknownPoolingType string
  | AssertionFailed
  | IndexOutOfRange
  | NullPointer
  | DivisionByZero

text \<open>A weight group (class \<^verbatim>\<open>Weights\<close>): the fields are named after its accessors.\<close>

record 'm Weights =
  getW :: 'm
  getInc :: 'm
  getGrads :: 'm
  getEps :: real
  getWc :: real
  getMom :: real

text \<open>The integer and float geometry members of the convolution, pooling and
  normalisation layers.\<close>

record geometry =
  padding :: int
  stride :: int
  filterSize :: int
  modulesX :: int
  channels :: int
  imgSize :: int
  numFilters :: int
  partialSum :: int
  sharedBiases :: int
  modules :: int
  filterPixels :: int
  imgPixels :: int
  sizeX :: int
  start :: int
  outputsX :: int
  scale :: real
  pow :: real

text \<open>
  A layer object. The members of the base class come first; the members of the
  subclasses follow (a layer of another kind does not use them). The orientation flag of
  the two \<^verbatim>\<open>NVMatrix\<close> members is kept beside their contents (\<open>actsTrans\<close>,
  \<open>actGradsTrans\<close>): \<^verbatim>\<open>NVMatrix::transpose(bool)\<close> sets it and leaves the storage alone.
\<close>

record 'm layer =
  kind :: kind
  name :: string
  type :: string
  gradConsumer :: bool
  gradProducer :: bool
  transL :: bool
  prev :: "nat list"
  "next" :: "nat list"
  acts :: 'm
  actsTrans :: bool
  actsView :: bool
  actGrads :: 'm
  actGradsTrans :: bool
  rcvdFInputs :: int
  rcvdBInputs :: int
  numGradProducersNext :: int
  weights :: "'m Weights list"
  convWeights :: "'m Weights"
  biases :: "'m Weights"
  neuron :: string
  geom :: geometry
  weightGradsTmp :: 'm
  denoms :: 'm
  meanDiffs :: 'm
  pool :: string
  coeff :: real
  err :: "real list"
  dataIdx :: int

text \<open>
  A reference to a matrix (\<^verbatim>\<open>NVMatrix&\<close>, \<^verbatim>\<open>NVMatrix*\<close>): the activation or the
  activation-gradient buffer of a layer, or a matrix that the driver owns.
\<close>

datatype mref = ActsOf nat | ActGradsOf nat | Ext nat

text \<open>
  The trace is ghost state: it records which member functions ran, in order. Nothing in
  the model reads it; the theorems about "fires exactly once" are stated on it.
  \<open>EvGrad k s i p c\<close> says that layer \<open>s\<close>, in \<^verbatim>\<open>bpropActs\<close> for input index \<open>i\<close>, ran
  the gradient kernel \<open>k\<close> on the activation-gradient buffer of layer \<open>p\<close>, and \<open>c\<close>
  is what the kernel computes from its inputs (the value it stores when it overwrites).
\<close>

datatype gradKernel =
    K_rightMult | K_addProduct | K_convImgActs
  | K_computeLogregSoftmaxGrads | K_computeSoftmaxGrads
  | K_convLocalMaxUndo | K_convLocalAvgUndo
  | K_convResponseNormUndo | K_convContrastNormUndo | K_computeLogregGrads

datatype 'm event =
    EvFprop nat
  | EvFpropActs nat
  | EvBprop nat
  | EvBpropCommon nat 'm
  | EvGrad gradKernel nat nat nat 'm
  | EvBpropWeights nat

text \<open>The store: the layers, the matrices of the driver, the two static switches of
  class \<^verbatim>\<open>Layer\<close>, and the trace.\<close>

record 'm net =
  layers :: "nat \<Rightarrow> 'm layer"
  ext :: "nat \<Rightarrow> 'm"
  extTrans :: "nat \<Rightarrow> bool"
  saveActs :: bool
  saveActGrads :: bool
  trace :: "'m event list"

text \<open>How a call ends: normally, by an exception (with the store as it was when the
  exception was thrown), or the model ran out of fuel (the recursion over the graph is
  bounded by a fuel argument).\<close>

datatype 'm outcome = Done "'m net" | Raised error "'m net" | OutOfFuel


section \<open>The matrix library and the kernels, as a parameter\<close>

text \<open>
  One field per function of \<^verbatim>\<open>NVMatrix\<close>, \<^verbatim>\<open>Neuron\<close> and \<^verbatim>\<open>layer_kernels.cuh\<close> that
  \<^verbatim>\<open>layer.cu\<close> calls. A function that writes a target matrix returns the new contents
  of the target; where the source passes the target's old contents to the kernel (a
  scale factor for the target, or an \<^verbatim>\<open>add\<close> flag), the field takes them too. The
  integer and float parameters of a kernel are passed as lists, in the order of the call.
\<close>

datatype pooler = MaxPooler | AvgPooler int

record 'm backend =
  rightMult :: "'m \<Rightarrow> 'm \<Rightarrow> 'm"
  addProduct :: "'m \<Rightarrow> 'm \<Rightarrow> 'm \<Rightarrow> real \<Rightarrow> real \<Rightarrow> 'm"
  addVector :: "'m \<Rightarrow> 'm \<Rightarrow> real \<Rightarrow> 'm"
  addScaled :: "'m \<Rightarrow> 'm \<Rightarrow> real \<Rightarrow> real \<Rightarrow> 'm"
  sumAxis :: "int \<Rightarrow> 'm \<Rightarrow> 'm"
  maxAxis :: "int \<Rightarrow> 'm \<Rightarrow> 'm"
  sumAll :: "'m \<Rightarrow> real"
  getTranspose :: "'m \<Rightarrow> 'm"
  getNumRows :: "'m \<Rightarrow> int"
  getNumElements :: "'m \<Rightarrow> int"
  reshape :: "int \<Rightarrow> int \<Rightarrow> 'm \<Rightarrow> 'm"
  applyExp :: "'m \<Rightarrow> 'm"
  eltwiseDivideByVector :: "'m \<Rightarrow> 'm \<Rightarrow> 'm"
  truncateM :: "'m \<Rightarrow> 'm"
  activate :: "string \<Rightarrow> 'm \<Rightarrow> 'm"
  computeInputGrads :: "string \<Rightarrow> 'm \<Rightarrow> 'm \<Rightarrow> 'm"
  convFilterActs :: "'m \<Rightarrow> 'm \<Rightarrow> int list \<Rightarrow> 'm"
  convWeightActs :: "'m \<Rightarrow> 'm \<Rightarrow> 'm \<Rightarrow> int list \<Rightarrow> 'm"
  convImgActs :: "'m \<Rightarrow> 'm \<Rightarrow> 'm \<Rightarrow> int list \<Rightarrow> real \<Rightarrow> real \<Rightarrow> 'm"
  convLocalPool :: "'m \<Rightarrow> int list \<Rightarrow> pooler \<Rightarrow> 'm"
  convLocalMaxUndo :: "'m \<Rightarrow> 'm \<Rightarrow> 'm \<Rightarrow> 'm \<Rightarrow> int list \<Rightarrow> real \<Rightarrow> real \<Rightarrow> 'm"
  convLocalAvgUndo :: "'m \<Rightarrow> 'm \<Rightarrow> int list \<Rightarrow> real \<Rightarrow> real \<Rightarrow> 'm"
  convResponseNorm :: "'m \<Rightarrow> int list \<Rightarrow> real list \<Rightarrow> 'm \<times> 'm"
  convResponseNormUndo ::
    "'m \<Rightarrow> 'm \<Rightarrow> 'm \<Rightarrow> 'm \<Rightarrow> 'm \<Rightarrow> int list \<Rightarrow> real list \<Rightarrow> real \<Rightarrow> real \<Rightarrow> 'm"
  convContrastNorm :: "'m \<Rightarrow> 'm \<Rightarrow> int list \<Rightarrow> real list \<Rightarrow> 'm \<times> 'm"
  convContrastNormUndo ::
    "'m \<Rightarrow> 'm \<Rightarrow> 'm \<Rightarrow> 'm \<Rightarrow> 'm \<Rightarrow> int list \<Rightarrow> real list \<Rightarrow> real \<Rightarrow> real \<Rightarrow> 'm"
  computeLogregCost :: "'m \<Rightarrow> 'm \<Rightarrow> 'm \<times> 'm"
  computeLogregGrads :: "'m \<Rightarrow> 'm \<Rightarrow> 'm \<Rightarrow> bool \<Rightarrow> real \<Rightarrow> 'm"
  computeLogregSoftmaxGrads :: "'m \<Rightarrow> 'm \<Rightarrow> 'm \<Rightarrow> bool \<Rightarrow> real \<Rightarrow> 'm"
  computeSoftmaxGrads :: "'m \<Rightarrow> 'm \<Rightarrow> 'm \<Rightarrow> bool \<Rightarrow> 'm"

section \<open>Store access\<close>

definition updL :: "nat \<Rightarrow> ('m layer \<Rightarrow> 'm layer) \<Rightarrow> 'm net \<Rightarrow> 'm net" where
  "updL l f \<sigma> = \<sigma>\<lparr>layers := (layers \<sigma>)(l := f (layers \<sigma> l))\<rparr>"

definition emit :: "'m event \<Rightarrow> 'm net \<Rightarrow> 'm net" where
  "emit e \<sigma> = \<sigma>\<lparr>trace := trace \<sigma> @ [e]\<rparr>"

fun deref :: "'m net \<Rightarrow> mref \<Rightarrow> 'm" where
  "deref \<sigma> (ActsOf l) = acts (layers \<sigma> l)"
| "deref \<sigma> (ActGradsOf l) = actGrads (layers \<sigma> l)"
| "deref \<sigma> (Ext k) = ext \<sigma> k"

fun refTrans :: "'m net \<Rightarrow> mref \<Rightarrow> bool" where
  "refTrans \<sigma> (ActsOf l) = actsTrans (layers \<sigma> l)"
| "refTrans \<sigma> (ActGradsOf l) = actGradsTrans (layers \<sigma> l)"
| "refTrans \<sigma> (Ext k) = extTrans \<sigma> k"

fun assign :: "mref \<Rightarrow> 'm \<Rightarrow> 'm net \<Rightarrow> 'm net" where
  "assign (ActsOf l) m \<sigma> = updL l (\<lambda>x. x\<lparr>acts := m\<rparr>) \<sigma>"
| "assign (ActGradsOf l) m \<sigma> = updL l (\<lambda>x. x\<lparr>actGrads := m\<rparr>) \<sigma>"
| "assign (Ext k) m \<sigma> = \<sigma>\<lparr>ext := (ext \<sigma>)(k := m)\<rparr>"

text \<open>\<^verbatim>\<open>NVMatrix::transpose(bool)\<close> on the matrix a reference denotes.\<close>

fun transpose :: "bool \<Rightarrow> mref \<Rightarrow> 'm net \<Rightarrow> 'm net" where
  "transpose t (ActsOf l) \<sigma> = updL l (\<lambda>x. x\<lparr>actsTrans := t\<rparr>) \<sigma>"
| "transpose t (ActGradsOf l) \<sigma> = updL l (\<lambda>x. x\<lparr>actGradsTrans := t\<rparr>) \<sigma>"
| "transpose t (Ext k) \<sigma> = \<sigma>\<lparr>extTrans := (extTrans \<sigma>)(k := t)\<rparr>"

text \<open>C++ integer division truncates towards zero; division by zero is undefined.\<close>

definition cdiv :: "int \<Rightarrow> int \<Rightarrow> int" where
  "cdiv a b = sgn a * sgn b * (\<bar>a\<bar> div \<bar>b\<bar>)"

section \<open>Constructors, accessors and graph assembly\<close>

text \<open>
  \<open>raw\<close> is the object before the constructor body runs: the constructor of
  \<^verbatim>\<open>Layer\<close> sets the name, the type tag, the three flags and
  \<^verbatim>\<open>_numGradProducersNext\<close>; the two vectors are default-constructed (empty); the two
  fan-in counters are not initialised by it (\<^verbatim>\<open>reset\<close> does that).
\<close>

definition Layer_ctor :: "'m layer \<Rightarrow> string \<Rightarrow> string \<Rightarrow> bool \<Rightarrow> bool \<Rightarrow> bool \<Rightarrow> 'm layer" where
  "Layer_ctor raw nm ty gc gp tr =
     raw\<lparr>name := nm, type := ty, gradConsumer := gc, gradProducer := gp, transL := tr,
         prev := [], next := [], numGradProducersNext := 0\<rparr>"

definition FCLayer_ctor ::
  "'m layer \<Rightarrow> string \<Rightarrow> string \<Rightarrow> 'm Weights list \<Rightarrow> 'm Weights \<Rightarrow> string \<Rightarrow> 'm layer" where
  "FCLayer_ctor raw nm ty ws bs neu =
     (Layer_ctor raw nm ty True True True)
       \<lparr>kind := FCLayer, weights := ws, biases := bs, neuron := neu\<rparr>"

definition ConvLayer_ctor ::
  "'m layer \<Rightarrow> string \<Rightarrow> string \<Rightarrow> 'm Weights \<Rightarrow> 'm Weights \<Rightarrow> string \<Rightarrow> geometry \<Rightarrow> 'm layer" where
  "ConvLayer_ctor raw nm ty ws bs neu g =
     (Layer_ctor raw nm ty True True False)
       \<lparr>kind := ConvLayer, convWeights := ws, biases := bs, neuron := neu,
        geom := g\<lparr>modules := modulesX g * modulesX g,
                   filterPixels := filterSize g * filterSize g,
                   imgPixels := imgSize g * imgSize g\<rparr>\<rparr>"

definition SoftmaxLayer_ctor :: "'m layer \<Rightarrow> string \<Rightarrow> string \<Rightarrow> 'm layer" where
  "SoftmaxLayer_ctor raw nm ty = (Layer_ctor raw nm ty True True True)\<lparr>kind := SoftmaxLayer\<rparr>"

definition DataLayer_ctor :: "'m layer \<Rightarrow> string \<Rightarrow> string \<Rightarrow> int \<Rightarrow> 'm layer" where
  "DataLayer_ctor raw nm ty idx =
     (Layer_ctor raw nm ty False False False)\<lparr>kind := DataLayer, dataIdx := idx\<rparr>"

definition PoolLayer_ctor ::
  "'m layer \<Rightarrow> string \<Rightarrow> string \<Rightarrow> geometry \<Rightarrow> string \<Rightarrow> error + 'm layer" where
  "PoolLayer_ctor raw nm ty g pl =
     (if pl \<noteq> ''max'' \<and> pl \<noteq> ''avg'' then Inl (UnknownPoolingType pl)
      else Inr ((Layer_ctor raw nm ty True True False)
                  \<lparr>kind := PoolLayer, geom := g, pool := pl\<rparr>))"

definition ResponseNormLayer_ctor :: "'m layer \<Rightarrow> string \<Rightarrow> string \<Rightarrow> geometry \<Rightarrow> 'm layer" where
  "ResponseNormLayer_ctor raw nm ty g =
     (Layer_ctor raw nm ty True True False)\<lparr>kind := ResponseNormLayer, geom := g\<rparr>"

definition ContrastNormLayer_ctor :: "'m layer \<Rightarrow> string \<Rightarrow> string \<Rightarrow> geometry \<Rightarrow> 'm layer" where
  "ContrastNormLayer_ctor raw nm ty g =
     (ResponseNormLayer_ctor raw nm ty g)\<lparr>kind := ContrastNormLayer\<rparr>"

definition CostLayer_ctor ::
  "'m layer \<Rightarrow> string \<Rightarrow> string \<Rightarrow> real \<Rightarrow> bool \<Rightarrow> bool \<Rightarrow> bool \<Rightarrow> 'm layer" where
  "CostLayer_ctor raw nm ty c gc gp tr =
     (Layer_ctor raw nm ty gc gp tr)\<lparr>coeff := c, gradProducer := (c \<noteq> 0)\<rparr>"

definition LogregCostLayer_ctor :: "'m layer \<Rightarrow> string \<Rightarrow> string \<Rightarrow> real \<Rightarrow> 'm layer" where
  "LogregCostLayer_ctor raw nm ty c =
     (CostLayer_ctor raw nm ty c True True False)\<lparr>kind := LogregCostLayer\<rparr>"

text \<open>\<^verbatim>\<open>CostLayer::makeCostLayer(type, paramsDict)\<close>: \<open>tag\<close> is the factory's argument,
  \<open>nm\<close>, \<open>ty\<close> and \<open>c\<close> are what the constructor reads from the dictionary.\<close>

definition makeCostLayer ::
  "string \<Rightarrow> 'm layer \<Rightarrow> string \<Rightarrow> string \<Rightarrow> real \<Rightarrow> error + 'm layer" where
  "makeCostLayer tag raw nm ty c =
     (if tag = ''cost.logreg'' then Inr (LogregCostLayer_ctor raw nm ty c)
      else Inl (UnknownCostLayerType tag))"

definition isGradConsumer :: "'m net \<Rightarrow> nat \<Rightarrow> bool" where
  "isGradConsumer \<sigma> l = gradConsumer (layers \<sigma> l)"

definition isGradProducer :: "'m net \<Rightarrow> nat \<Rightarrow> bool" where
  "isGradProducer \<sigma> l = gradProducer (layers \<sigma> l)"

definition getRcvdFInputs :: "'m net \<Rightarrow> nat \<Rightarrow> int" where
  "getRcvdFInputs \<sigma> l = rcvdFInputs (layers \<sigma> l)"

definition getRcvdBInputs :: "'m net \<Rightarrow> nat \<Rightarrow> int" where
  "getRcvdBInputs \<sigma> l = rcvdBInputs (layers \<sigma> l)"

definition incRcvdBInputs :: "nat \<Rightarrow> 'm net \<Rightarrow> 'm net" where
  "incRcvdBInputs l \<sigma> = updL l (\<lambda>x. x\<lparr>rcvdBInputs := rcvdBInputs x + 1\<rparr>) \<sigma>"

definition getPrev :: "'m net \<Rightarrow> nat \<Rightarrow> nat list" where
  "getPrev \<sigma> l = prev (layers \<sigma> l)"

definition getNext :: "'m net \<Rightarrow> nat \<Rightarrow> nat list" where
  "getNext \<sigma> l = next (layers \<sigma> l)"

definition getType :: "'m net \<Rightarrow> nat \<Rightarrow> string" where
  "getType \<sigma> l = type (layers \<sigma> l)"

definition reset :: "nat \<Rightarrow> 'm net \<Rightarrow> 'm net" where
  "reset l \<sigma> = updL l (\<lambda>x. x\<lparr>rcvdFInputs := 0, rcvdBInputs := 0\<rparr>) \<sigma>"

text \<open>\<^verbatim>\<open>a->addNext(b)\<close>: \<^verbatim>\<open>_numGradProducersNext += l->isGradProducer()\<close> adds the
  \<^verbatim>\<open>bool\<close> converted to \<^verbatim>\<open>int\<close>.\<close>

definition addNext :: "nat \<Rightarrow> nat \<Rightarrow> 'm net \<Rightarrow> 'm net" where
  "addNext a b \<sigma> =
     updL a (\<lambda>x. x\<lparr>next := next x @ [b],
                    numGradProducersNext :=
                      numGradProducersNext x + (if isGradProducer \<sigma> b then 1 else 0)\<rparr>) \<sigma>"

text \<open>\<^verbatim>\<open>b->addPrev(a)\<close>.\<close>

definition addPrev :: "nat \<Rightarrow> nat \<Rightarrow> 'm net \<Rightarrow> 'm net" where
  "addPrev b a \<sigma> = updL b (\<lambda>x. x\<lparr>prev := prev x @ [a]\<rparr>) \<sigma>"

text \<open>
  The edge from \<open>a\<close> to \<open>b\<close>: \<^verbatim>\<open>layer.cu\<close> has no single function for it; the graph
  assembly (not in this file) makes the two calls \<^verbatim>\<open>a->addNext(b)\<close> and
  \<^verbatim>\<open>b->addPrev(a)\<close>.
\<close>

definition addEdge :: "nat \<Rightarrow> nat \<Rightarrow> 'm net \<Rightarrow> 'm net" where
  "addEdge a b \<sigma> = addPrev b a (addNext a b \<sigma>)"


section \<open>Forward pass\<close>

subsection \<open>\<^verbatim>\<open>fpropActs\<close> of each class\<close>

text \<open>\<^verbatim>\<open>FCLayer::fpropActs\<close>. The two-argument \<^verbatim>\<open>addProduct\<close> and the one-argument
  \<^verbatim>\<open>addVector\<close> are the calls with both scale factors 1.\<close>

definition FCLayer_fpropActs :: "'m backend \<Rightarrow> nat \<Rightarrow> mref list \<Rightarrow> 'm net \<Rightarrow> 'm outcome" where
  "FCLayer_fpropActs B l v \<sigma> =
     (if v = [] \<or> length (weights (layers \<sigma> l)) < length v then Raised IndexOutOfRange \<sigma>
      else
        let \<sigma>1 = updL l (\<lambda>x. x\<lparr>acts := rightMult B (deref \<sigma> (v ! 0)) (getW (weights x ! 0))\<rparr>) \<sigma>;
            \<sigma>2 = fold (\<lambda>i s. updL l (\<lambda>x. x\<lparr>acts := addProduct B (acts x) (deref s (v ! i))
                                                      (getW (weights x ! i)) 1 1\<rparr>) s)
                      [1..<length v] \<sigma>1;
            \<sigma>3 = updL l (\<lambda>x. x\<lparr>acts := addVector B (acts x) (getW (biases x)) 1\<rparr>) \<sigma>2
        in Done (updL l (\<lambda>x. x\<lparr>acts := activate B (neuron x) (acts x)\<rparr>) \<sigma>3))"

text \<open>\<^verbatim>\<open>ConvLayer::fpropActs\<close>.\<close>

definition ConvLayer_fpropActs :: "'m backend \<Rightarrow> nat \<Rightarrow> mref list \<Rightarrow> 'm net \<Rightarrow> 'm outcome" where
  "ConvLayer_fpropActs B l v \<sigma> =
     (if v = [] then Raised IndexOutOfRange \<sigma>
      else
        let L = layers \<sigma> l; g = geom L;
            a0 = convFilterActs B (deref \<sigma> (v ! 0)) (getW (convWeights L))
                   [modulesX g, padding g, stride g, channels g]
        in if sharedBiases g \<noteq> 0 then
             (if numFilters g = 0 \<or> numFilters g * modules g = 0
              then Raised DivisionByZero (updL l (\<lambda>x. x\<lparr>acts := a0\<rparr>) \<sigma>)
              else
                let a1 = reshape B (numFilters g) (cdiv (getNumElements B a0) (numFilters g)) a0;
                    a2 = addVector B a1 (getW (biases L)) 1;
                    a3 = reshape B (numFilters g * modules g)
                           (cdiv (getNumElements B a2) (numFilters g * modules g)) a2
                in Done (updL l (\<lambda>x. x\<lparr>acts := activate B (neuron L) a3\<rparr>) \<sigma>))
           else Done (updL l (\<lambda>x. x\<lparr>acts := activate B (neuron L)
                                               (addVector B a0 (getW (biases L)) 1)\<rparr>) \<sigma>))"

text \<open>\<^verbatim>\<open>SoftmaxLayer::fpropActs\<close>.\<close>

definition SoftmaxLayer_fpropActs :: "'m backend \<Rightarrow> nat \<Rightarrow> mref list \<Rightarrow> 'm net \<Rightarrow> 'm outcome" where
  "SoftmaxLayer_fpropActs B l v \<sigma> =
     (if v = [] then Raised IndexOutOfRange \<sigma>
      else
        let input = deref \<sigma> (v ! 0);
            mx = maxAxis B 1 input;
            e = applyExp B (addVector B input mx (- 1));
            sm = sumAxis B 1 e
        in Done (updL l (\<lambda>x. x\<lparr>acts := eltwiseDivideByVector B e sm\<rparr>) \<sigma>))"

text \<open>\<^verbatim>\<open>DataLayer::fpropActs\<close>: \<^verbatim>\<open>data[_dataIdx]\<close> is not checked by the source; an index
  outside the vector is undefined behaviour. The assignment copies the matrix object,
  with its orientation flag.\<close>

definition DataLayer_fpropActs :: "nat \<Rightarrow> mref list \<Rightarrow> 'm net \<Rightarrow> 'm outcome" where
  "DataLayer_fpropActs l data \<sigma> =
     (let idx = dataIdx (layers \<sigma> l) in
      if idx < 0 \<or> int (length data) \<le> idx then Raised IndexOutOfRange \<sigma>
      else
        let d = data ! nat idx in
        Done (updL l (\<lambda>x. x\<lparr>acts := deref \<sigma> d, actsTrans := refTrans \<sigma> d, actsView := True\<rparr>) \<sigma>))"

text \<open>\<^verbatim>\<open>PoolLayer::fpropActs\<close>.\<close>

definition PoolLayer_fpropActs :: "'m backend \<Rightarrow> nat \<Rightarrow> mref list \<Rightarrow> 'm net \<Rightarrow> 'm outcome" where
  "PoolLayer_fpropActs B l v \<sigma> =
     (if v = [] then Raised IndexOutOfRange \<sigma>
      else
        let L = layers \<sigma> l; g = geom L; images = deref \<sigma> (v ! 0);
            ps = [channels g, sizeX g, start g, stride g, outputsX g]
        in if pool L = ''max'' then
             Done (updL l (\<lambda>x. x\<lparr>acts := convLocalPool B images ps MaxPooler\<rparr>) \<sigma>)
           else if pool L = ''avg'' then
             Done (updL l (\<lambda>x. x\<lparr>acts := convLocalPool B images ps
                                             (AvgPooler (sizeX g * sizeX g))\<rparr>) \<sigma>)
           else Done \<sigma>)"

text \<open>\<^verbatim>\<open>ResponseNormLayer::fpropActs\<close>: the kernel writes \<^verbatim>\<open>_denoms\<close> and \<^verbatim>\<open>_acts\<close>.\<close>

definition ResponseNormLayer_fpropActs ::
  "'m backend \<Rightarrow> nat \<Rightarrow> mref list \<Rightarrow> 'm net \<Rightarrow> 'm outcome" where
  "ResponseNormLayer_fpropActs B l v \<sigma> =
     (if v = [] then Raised IndexOutOfRange \<sigma>
      else
        let g = geom (layers \<sigma> l);
            r = convResponseNorm B (deref \<sigma> (v ! 0)) [channels g, sizeX g] [scale g, pow g]
        in Done (updL l (\<lambda>x. x\<lparr>denoms := fst r, acts := snd r\<rparr>) \<sigma>))"

text \<open>\<^verbatim>\<open>ContrastNormLayer::fpropActs\<close>.\<close>

definition ContrastNormLayer_fpropActs ::
  "'m backend \<Rightarrow> nat \<Rightarrow> mref list \<Rightarrow> 'm net \<Rightarrow> 'm outcome" where
  "ContrastNormLayer_fpropActs B l v \<sigma> =
     (if v = [] then Raised IndexOutOfRange \<sigma>
      else
        let g = geom (layers \<sigma> l); images = deref \<sigma> (v ! 0);
            md0 = convLocalPool B images [channels g, sizeX g, cdiv (- sizeX g) 2, 1, imgSize g]
                    (AvgPooler (sizeX g * sizeX g));
            md = addScaled B md0 images (- 1) 1;
            r = convContrastNorm B images md [channels g, sizeX g] [scale g, pow g]
        in Done (updL l (\<lambda>x. x\<lparr>meanDiffs := md, denoms := fst r, acts := snd r\<rparr>) \<sigma>))"

text \<open>\<^verbatim>\<open>LogregCostLayer::fpropActs\<close>: labels are \<^verbatim>\<open>v[0]\<close>, probabilities \<^verbatim>\<open>v[1]\<close>; the
  kernel writes the per-case log-probabilities into \<^verbatim>\<open>_acts\<close>.\<close>

definition LogregCostLayer_fpropActs ::
  "'m backend \<Rightarrow> nat \<Rightarrow> mref list \<Rightarrow> 'm net \<Rightarrow> 'm outcome" where
  "LogregCostLayer_fpropActs B l v \<sigma> =
     (if length v < 2 then Raised IndexOutOfRange (updL l (\<lambda>x. x\<lparr>err := []\<rparr>) \<sigma>)
      else
        let labels = deref \<sigma> (v ! 0); probs = deref \<sigma> (v ! 1);
            numCases = getNumElements B labels;
            r = computeLogregCost B labels probs
        in Done (updL l (\<lambda>x. x\<lparr>acts := fst r,
                               err := [- sumAll B (fst r), real_of_int numCases - sumAll B (snd r)]\<rparr>) \<sigma>))"

text \<open>The virtual call \<^verbatim>\<open>fpropActs(v, passType)\<close>.\<close>

definition fpropActs :: "'m backend \<Rightarrow> nat \<Rightarrow> mref list \<Rightarrow> PASS_TYPE \<Rightarrow> 'm net \<Rightarrow> 'm outcome" where
  "fpropActs B l v p \<sigma> =
     (let \<sigma>' = emit (EvFpropActs l) \<sigma> in
      case kind (layers \<sigma> l) of
        FCLayer \<Rightarrow> FCLayer_fpropActs B l v \<sigma>'
      | ConvLayer \<Rightarrow> ConvLayer_fpropActs B l v \<sigma>'
      | SoftmaxLayer \<Rightarrow> SoftmaxLayer_fpropActs B l v \<sigma>'
      | DataLayer \<Rightarrow> DataLayer_fpropActs l v \<sigma>'
      | PoolLayer \<Rightarrow> PoolLayer_fpropActs B l v \<sigma>'
      | ResponseNormLayer \<Rightarrow> ResponseNormLayer_fpropActs B l v \<sigma>'
      | ContrastNormLayer \<Rightarrow> ContrastNormLayer_fpropActs B l v \<sigma>'
      | LogregCostLayer \<Rightarrow> LogregCostLayer_fpropActs B l v \<sigma>')"

subsection \<open>The forward protocol of \<^verbatim>\<open>Layer\<close>\<close>

text \<open>\<^verbatim>\<open>Layer::fprop(NVMatrixV& v, PASS_TYPE)\<close> up to and including \<^verbatim>\<open>fpropActs\<close>: the
  assertion, the counter, the orientation flags, the computation.\<close>

definition Layer_fprop_body ::
  "'m backend \<Rightarrow> nat \<Rightarrow> mref list \<Rightarrow> PASS_TYPE \<Rightarrow> 'm net \<Rightarrow> 'm outcome" where
  "Layer_fprop_body B l v p \<sigma> =
     (if length v \<noteq> length (prev (layers \<sigma> l)) then Raised AssertionFailed \<sigma>
      else
        let \<sigma>1 = updL l (\<lambda>x. x\<lparr>rcvdFInputs := int (length (prev x))\<rparr>) \<sigma>;
            \<sigma>2 = fold (transpose (transL (layers \<sigma> l))) v \<sigma>1;
            \<sigma>3 = transpose (transL (layers \<sigma> l)) (ActsOf l) \<sigma>2
        in fpropActs B l v p \<sigma>3)"

text \<open>
  \<^verbatim>\<open>Layer::fprop(PASS_TYPE)\<close> with the override \<^verbatim>\<open>DataLayer::fprop(PASS_TYPE)\<close>, and
  \<^verbatim>\<open>Layer::fpropNext\<close>. The loop of \<^verbatim>\<open>fpropNext\<close> runs over the successor list (no call
  changes a successor list during a pass). The first argument after the backend is the
  fuel: each call from a layer into a successor uses one unit.
\<close>

fun fprop :: "'m backend \<Rightarrow> nat \<Rightarrow> nat \<Rightarrow> PASS_TYPE \<Rightarrow> 'm net \<Rightarrow> 'm outcome"
and fpropNext :: "'m backend \<Rightarrow> nat \<Rightarrow> nat list \<Rightarrow> PASS_TYPE \<Rightarrow> 'm net \<Rightarrow> 'm outcome"
where
  "fprop B 0 l p \<sigma> = OutOfFuel"
| "fprop B (Suc n) l p \<sigma> =
     (if kind (layers \<sigma> l) = DataLayer then Raised NoDataGiven \<sigma>
      else
        let \<sigma>1 = updL l (\<lambda>x. x\<lparr>rcvdFInputs := rcvdFInputs x + 1\<rparr>) (emit (EvFprop l) \<sigma>) in
        if rcvdFInputs (layers \<sigma>1 l) = int (length (prev (layers \<sigma>1 l))) then
          (case Layer_fprop_body B l (map ActsOf (prev (layers \<sigma>1 l))) p \<sigma>1 of
             Done \<sigma>2 \<Rightarrow> fpropNext B n (next (layers \<sigma>2 l)) p \<sigma>2
           | r \<Rightarrow> r)
        else Done \<sigma>1)"
| "fpropNext B n [] p \<sigma> = Done \<sigma>"
| "fpropNext B n (x # xs) p \<sigma> =
     (case fprop B n x p \<sigma> of Done \<sigma>' \<Rightarrow> fpropNext B n xs p \<sigma>' | r \<Rightarrow> r)"

text \<open>The list-based entry \<^verbatim>\<open>fprop(NVMatrixV&, PASS_TYPE)\<close> as the driver calls it:
  \<^verbatim>\<open>Layer::fprop\<close>, or the override \<^verbatim>\<open>DataLayer::fprop\<close>, which runs \<^verbatim>\<open>fpropActs\<close> and
  \<^verbatim>\<open>fpropNext\<close> only.\<close>

definition fprop_v ::
  "'m backend \<Rightarrow> nat \<Rightarrow> nat \<Rightarrow> mref list \<Rightarrow> PASS_TYPE \<Rightarrow> 'm net \<Rightarrow> 'm outcome" where
  "fprop_v B n l v p \<sigma> =
     (case (if kind (layers \<sigma> l) = DataLayer then fpropActs B l v p \<sigma>
            else Layer_fprop_body B l v p \<sigma>) of
        Done \<sigma>' \<Rightarrow> fpropNext B n (next (layers \<sigma>' l)) p \<sigma>'
      | r \<Rightarrow> r)"

text \<open>\<^verbatim>\<open>Layer::fprop(NVMatrix& v, PASS_TYPE)\<close>.\<close>

definition fprop_1 ::
  "'m backend \<Rightarrow> nat \<Rightarrow> nat \<Rightarrow> mref \<Rightarrow> PASS_TYPE \<Rightarrow> 'm net \<Rightarrow> 'm outcome" where
  "fprop_1 B n l r p \<sigma> = fprop_v B n l [r] p \<sigma>"


section \<open>Backward pass\<close>

subsection \<open>\<^verbatim>\<open>bpropCommon\<close>\<close>

text \<open>
  \<^verbatim>\<open>FCLayer::bpropCommon\<close> and \<^verbatim>\<open>ConvLayer::bpropCommon\<close> apply the derivative of the
  neuron to \<open>v\<close> in place (the neuron object reads the activations it was applied to).
  Modelled from the spec: the other classes do not define \<^verbatim>\<open>bpropCommon\<close>,
  \<^verbatim>\<open>bpropWeights\<close> or (the data layer) \<^verbatim>\<open>bpropActs\<close>; the defaults are declared in
  \<^verbatim>\<open>layer.cuh\<close>, which is not among the sources, and do nothing.
\<close>

definition bpropCommon :: "'m backend \<Rightarrow> nat \<Rightarrow> mref \<Rightarrow> PASS_TYPE \<Rightarrow> 'm net \<Rightarrow> 'm net" where
  "bpropCommon B l v p \<sigma> =
     (if kind (layers \<sigma> l) = FCLayer \<or> kind (layers \<sigma> l) = ConvLayer
      then assign v (computeInputGrads B (neuron (layers \<sigma> l)) (acts (layers \<sigma> l)) (deref \<sigma> v)) \<sigma>
      else \<sigma>)"

subsection \<open>\<^verbatim>\<open>bpropActs\<close> of each class\<close>

text \<open>\<^verbatim>\<open>FCLayer::bpropActs\<close>.\<close>

definition FCLayer_bpropActs :: "'m backend \<Rightarrow> nat \<Rightarrow> mref \<Rightarrow> nat \<Rightarrow> 'm net \<Rightarrow> 'm outcome" where
  "FCLayer_bpropActs B l v i \<sigma> =
     (let L = layers \<sigma> l in
      if length (weights L) \<le> i \<or> length (prev L) \<le> i then Raised IndexOutOfRange \<sigma>
      else
        let q = prev L ! i;
            weights_T = getTranspose B (getW (weights L ! i));
            target = actGrads (layers \<sigma> q);
            c = rightMult B (deref \<sigma> v) weights_T
        in if getRcvdBInputs \<sigma> q = 0 then
             Done (emit (EvGrad K_rightMult l i q c) (updL q (\<lambda>x. x\<lparr>actGrads := c\<rparr>) \<sigma>))
           else
             Done (emit (EvGrad K_addProduct l i q c)
                     (updL q (\<lambda>x. x\<lparr>actGrads := addProduct B target (deref \<sigma> v) weights_T 1 1\<rparr>) \<sigma>)))"

text \<open>\<^verbatim>\<open>ConvLayer::bpropActs\<close>.\<close>

definition ConvLayer_bpropActs :: "'m backend \<Rightarrow> nat \<Rightarrow> mref \<Rightarrow> nat \<Rightarrow> 'm net \<Rightarrow> 'm outcome" where
  "ConvLayer_bpropActs B l v i \<sigma> =
     (let L = layers \<sigma> l; g = geom L in
      if length (prev L) \<le> i then Raised IndexOutOfRange \<sigma>
      else
        let q = prev L ! i;
            scaleTargets = (if getRcvdBInputs \<sigma> q = 0 then 0 else 1);
            k = (\<lambda>st. convImgActs B (deref \<sigma> v) (getW (convWeights L)) (actGrads (layers \<sigma> q))
                        [imgSize g, padding g, stride g, channels g] st 1)
        in Done (emit (EvGrad K_convImgActs l i q (k 0))
                   (updL q (\<lambda>x. x\<lparr>actGrads := k scaleTargets\<rparr>) \<sigma>)))"

text \<open>The test of \<^verbatim>\<open>SoftmaxLayer::bpropActs\<close> for the fused gradient.\<close>

definition doLogregGrad :: "'m net \<Rightarrow> nat \<Rightarrow> bool" where
  "doLogregGrad \<sigma> l =
     (length (getNext \<sigma> l) = 1 \<and> getType \<sigma> (getNext \<sigma> l ! 0) = ''cost.logreg'')"

text \<open>\<^verbatim>\<open>SoftmaxLayer::bpropActs\<close>. In the fused branch \<^verbatim>\<open>_next[0]->getPrev()[0]\<close> needs a
  non-empty predecessor list of the successor, and the \<^verbatim>\<open>dynamic_cast\<close> to
  \<^verbatim>\<open>CostLayer*\<close> gives the null pointer unless the successor is a cost layer.\<close>

definition SoftmaxLayer_bpropActs :: "'m backend \<Rightarrow> nat \<Rightarrow> mref \<Rightarrow> nat \<Rightarrow> 'm net \<Rightarrow> 'm outcome" where
  "SoftmaxLayer_bpropActs B l v i \<sigma> =
     (let L = layers \<sigma> l in
      if length (prev L) \<le> i then Raised IndexOutOfRange \<sigma>
      else
        let q = prev L ! i;
            target = actGrads (layers \<sigma> q);
            add = (getRcvdBInputs \<sigma> q > 0)
        in if doLogregGrad \<sigma> l then
             (let n0 = next L ! 0 in
              if getPrev \<sigma> n0 = [] then Raised IndexOutOfRange \<sigma>
              else if kind (layers \<sigma> n0) \<noteq> LogregCostLayer then Raised NullPointer \<sigma>
              else
                let labels = acts (layers \<sigma> (getPrev \<sigma> n0 ! 0));
                    gradCoeff = coeff (layers \<sigma> n0);
                    k = (\<lambda>a. computeLogregSoftmaxGrads B labels (acts L) target a gradCoeff)
                in Done (emit (EvGrad K_computeLogregSoftmaxGrads l i q (k False))
                           (updL q (\<lambda>x. x\<lparr>actGrads := k add\<rparr>) \<sigma>)))
           else
             (let k = (\<lambda>a. computeSoftmaxGrads B (acts L) (deref \<sigma> v) target a)
              in Done (emit (EvGrad K_computeSoftmaxGrads l i q (k False))
                         (updL q (\<lambda>x. x\<lparr>actGrads := k add\<rparr>) \<sigma>))))"

text \<open>\<^verbatim>\<open>PoolLayer::bpropActs\<close>.\<close>

definition PoolLayer_bpropActs :: "'m backend \<Rightarrow> nat \<Rightarrow> mref \<Rightarrow> nat \<Rightarrow> 'm net \<Rightarrow> 'm outcome" where
  "PoolLayer_bpropActs B l v i \<sigma> =
     (let L = layers \<sigma> l; g = geom L in
      if length (prev L) \<le> i then Raised IndexOutOfRange \<sigma>
      else
        let q = prev L ! i;
            scaleTargets = (if getRcvdBInputs \<sigma> q = 0 then 0 else 1);
            target = actGrads (layers \<sigma> q)
        in if pool L = ''max'' then
             (let k = (\<lambda>st. convLocalMaxUndo B (acts (layers \<sigma> q)) (deref \<sigma> v) (acts L) target
                              [sizeX g, start g, stride g, outputsX g] st 1)
              in Done (emit (EvGrad K_convLocalMaxUndo l i q (k 0))
                         (updL q (\<lambda>x. x\<lparr>actGrads := k scaleTargets\<rparr>) \<sigma>)))
           else if pool L = ''avg'' then
             (let k = (\<lambda>st. convLocalAvgUndo B (deref \<sigma> v) target
                              [sizeX g, start g, stride g, outputsX g, imgSize g] st 1)
              in Done (emit (EvGrad K_convLocalAvgUndo l i q (k 0))
                         (updL q (\<lambda>x. x\<lparr>actGrads := k scaleTargets\<rparr>) \<sigma>)))
           else Done \<sigma>)"

text \<open>\<^verbatim>\<open>ResponseNormLayer::bpropActs\<close>.\<close>

definition ResponseNormLayer_bpropActs ::
  "'m backend \<Rightarrow> nat \<Rightarrow> mref \<Rightarrow> nat \<Rightarrow> 'm net \<Rightarrow> 'm outcome" where
  "ResponseNormLayer_bpropActs B l v i \<sigma> =
     (let L = layers \<sigma> l; g = geom L in
      if length (prev L) \<le> i then Raised IndexOutOfRange \<sigma>
      else
        let q = prev L ! i;
            scaleTargets = (if getRcvdBInputs \<sigma> q = 0 then 0 else 1);
            k = (\<lambda>st. convResponseNormUndo B (deref \<sigma> v) (denoms L) (acts (layers \<sigma> q)) (acts L)
                        (actGrads (layers \<sigma> q)) [channels g, sizeX g] [scale g, pow g] st 1)
        in Done (emit (EvGrad K_convResponseNormUndo l i q (k 0))
                   (updL q (\<lambda>x. x\<lparr>actGrads := k scaleTargets\<rparr>) \<sigma>)))"

text \<open>\<^verbatim>\<open>ContrastNormLayer::bpropActs\<close>.\<close>

definition ContrastNormLayer_bpropActs ::
  "'m backend \<Rightarrow> nat \<Rightarrow> mref \<Rightarrow> nat \<Rightarrow> 'm net \<Rightarrow> 'm outcome" where
  "ContrastNormLayer_bpropActs B l v i \<sigma> =
     (let L = layers \<sigma> l; g = geom L in
      if length (prev L) \<le> i then Raised IndexOutOfRange \<sigma>
      else
        let q = prev L ! i;
            scaleTargets = (if getRcvdBInputs \<sigma> q = 0 then 0 else 1);
            k = (\<lambda>st. convContrastNormUndo B (deref \<sigma> v) (denoms L) (meanDiffs L) (acts L)
                        (actGrads (layers \<sigma> q)) [channels g, sizeX g] [scale g, pow g] st 1)
        in Done (emit (EvGrad K_convContrastNormUndo l i q (k 0))
                   (updL q (\<lambda>x. x\<lparr>actGrads := k scaleTargets\<rparr>) \<sigma>)))"

text \<open>The test of \<^verbatim>\<open>LogregCostLayer::bpropActs\<close> for computing the gradient itself.\<close>

definition doWork :: "'m net \<Rightarrow> nat \<Rightarrow> nat \<Rightarrow> bool" where
  "doWork \<sigma> l i =
     (length (getNext \<sigma> (getPrev \<sigma> l ! i)) > 1 \<or> getType \<sigma> (getPrev \<sigma> l ! i) \<noteq> ''softmax'')"

text \<open>\<^verbatim>\<open>LogregCostLayer::bpropActs\<close>: the labels are the activations of \<^verbatim>\<open>_prev[0]\<close>.\<close>

definition LogregCostLayer_bpropActs ::
  "'m backend \<Rightarrow> nat \<Rightarrow> mref \<Rightarrow> nat \<Rightarrow> 'm net \<Rightarrow> 'm outcome" where
  "LogregCostLayer_bpropActs B l v i \<sigma> =
     (let L = layers \<sigma> l in
      if length (prev L) \<le> i then Raised IndexOutOfRange \<sigma>
      else
        let q = prev L ! i;
            labels = acts (layers \<sigma> (prev L ! 0));
            probs = acts (layers \<sigma> q);
            target = actGrads (layers \<sigma> q);
            k = (\<lambda>a. computeLogregGrads B labels probs target a (coeff L))
        in if doWork \<sigma> l i then
             Done (emit (EvGrad K_computeLogregGrads l i q (k False))
                     (updL q (\<lambda>x. x\<lparr>actGrads := k (getRcvdBInputs \<sigma> q > 0)\<rparr>) \<sigma>))
           else Done \<sigma>)"

text \<open>The virtual call \<^verbatim>\<open>bpropActs(v, inpIdx, passType)\<close>.\<close>

definition bpropActs ::
  "'m backend \<Rightarrow> nat \<Rightarrow> mref \<Rightarrow> nat \<Rightarrow> PASS_TYPE \<Rightarrow> 'm net \<Rightarrow> 'm outcome" where
  "bpropActs B l v i p \<sigma> =
     (case kind (layers \<sigma> l) of
        FCLayer \<Rightarrow> FCLayer_bpropActs B l v i \<sigma>
      | ConvLayer \<Rightarrow> ConvLayer_bpropActs B l v i \<sigma>
      | SoftmaxLayer \<Rightarrow> SoftmaxLayer_bpropActs B l v i \<sigma>
      | DataLayer \<Rightarrow> Done \<sigma>
      | PoolLayer \<Rightarrow> PoolLayer_bpropActs B l v i \<sigma>
      | ResponseNormLayer \<Rightarrow> ResponseNormLayer_bpropActs B l v i \<sigma>
      | ContrastNormLayer \<Rightarrow> ContrastNormLayer_bpropActs B l v i \<sigma>
      | LogregCostLayer \<Rightarrow> LogregCostLayer_bpropActs B l v i \<sigma>)"


subsection \<open>\<^verbatim>\<open>bpropWeights\<close>\<close>

text \<open>
  The loop of \<^verbatim>\<open>FCLayer::bpropWeights\<close> over the predecessor indices. The first scale
  factor is \<^verbatim>\<open>(passType != PASS_GC) * _weights[i].getMom()\<close>, a \<^verbatim>\<open>bool\<close> times a
  \<^verbatim>\<open>float\<close>; the second is \<^verbatim>\<open>passType == PASS_GC ? 1 : _weights[i].getEps() / v.getNumRows()\<close>.
  \<^verbatim>\<open>_weights[i]\<close> outside the weight list is undefined behaviour.
\<close>

fun FCLayer_bpropWeights_loop ::
  "'m backend \<Rightarrow> nat \<Rightarrow> mref \<Rightarrow> PASS_TYPE \<Rightarrow> nat list \<Rightarrow> 'm net \<Rightarrow> 'm outcome" where
  "FCLayer_bpropWeights_loop B l v p [] \<sigma> = Done \<sigma>"
| "FCLayer_bpropWeights_loop B l v p (i # is) \<sigma> =
     (let L = layers \<sigma> l in
      if length (weights L) \<le> i then Raised IndexOutOfRange \<sigma>
      else
        let prevActs_T = getTranspose B (acts (layers \<sigma> (prev L ! i)));
            w = weights L ! i;
            inc' = addProduct B (getInc w) prevActs_T (deref \<sigma> v)
                     ((if p \<noteq> PASS_GC then 1 else 0) * getMom w)
                     (if p = PASS_GC then 1 else getEps w / real_of_int (getNumRows B (deref \<sigma> v)))
        in FCLayer_bpropWeights_loop B l v p is
             (updL l (\<lambda>x. x\<lparr>weights := (weights x)[i := w\<lparr>getInc := inc'\<rparr>]\<rparr>) \<sigma>))"

text \<open>\<^verbatim>\<open>FCLayer::bpropWeights\<close>.\<close>

definition FCLayer_bpropWeights ::
  "'m backend \<Rightarrow> nat \<Rightarrow> mref \<Rightarrow> PASS_TYPE \<Rightarrow> 'm net \<Rightarrow> 'm outcome" where
  "FCLayer_bpropWeights B l v p \<sigma> =
     FCLayer_bpropWeights_loop B l v p [0..<length (prev (layers \<sigma> l))]
       (updL l (\<lambda>x. x\<lparr>biases := (biases x)\<lparr>getGrads := sumAxis B 0 (deref \<sigma> v)\<rparr>\<rparr>) \<sigma>)"

text \<open>\<^verbatim>\<open>ConvLayer::bpropWeights\<close>. The two reshapes of \<open>v\<close> change the matrix that \<open>v\<close>
  refers to.\<close>

definition ConvLayer_bpropWeights ::
  "'m backend \<Rightarrow> nat \<Rightarrow> mref \<Rightarrow> PASS_TYPE \<Rightarrow> 'm net \<Rightarrow> 'm outcome" where
  "ConvLayer_bpropWeights B l v p \<sigma> =
     (let g = geom (layers \<sigma> l); v0 = deref \<sigma> v in
      if sharedBiases g \<noteq> 0 \<and> (numFilters g = 0 \<or> numFilters g * modules g = 0)
      then Raised DivisionByZero \<sigma>
      else
        let \<sigma>1 =
              (if sharedBiases g \<noteq> 0 then
                 (let v1 = reshape B (numFilters g) (cdiv (getNumElements B v0) (numFilters g)) v0;
                      s1 = updL l (\<lambda>x. x\<lparr>biases := (biases x)\<lparr>getGrads := sumAxis B 1 v1\<rparr>\<rparr>) \<sigma>
                  in assign v (reshape B (numFilters g * modules g)
                                 (cdiv (getNumElements B v1) (numFilters g * modules g)) v1) s1)
               else updL l (\<lambda>x. x\<lparr>biases := (biases x)\<lparr>getGrads := sumAxis B 1 v0\<rparr>\<rparr>) \<sigma>)
        in if prev (layers \<sigma>1 l) = [] then Raised IndexOutOfRange \<sigma>1
           else
             let prevActs = acts (layers \<sigma>1 (prev (layers \<sigma>1 l) ! 0)) in
             if partialSum g > 0 \<and> partialSum g < modules g then
               (let t0 = convWeightActs B prevActs (deref \<sigma>1 v) (weightGradsTmp (layers \<sigma>1 l))
                           [modulesX g, filterSize g, padding g, stride g, channels g, 0, 1, partialSum g];
                    t1 = reshape B (cdiv (modules g) (partialSum g))
                           (channels g * filterPixels g * numFilters g) t0;
                    gr = reshape B (channels g * filterPixels g) (numFilters g) (sumAxis B 0 t1)
                in Done (updL l (\<lambda>x. x\<lparr>weightGradsTmp := t1,
                                       convWeights := (convWeights x)\<lparr>getGrads := gr\<rparr>\<rparr>) \<sigma>1))
             else
               Done (updL l (\<lambda>x. x\<lparr>convWeights := (convWeights x)
                       \<lparr>getGrads := convWeightActs B prevActs (deref \<sigma>1 v) (getGrads (convWeights x))
                                      [modulesX g, filterSize g, padding g, stride g, channels g]\<rparr>\<rparr>) \<sigma>1))"

text \<open>The virtual call \<^verbatim>\<open>bpropWeights(v, passType)\<close>.\<close>

definition bpropWeights ::
  "'m backend \<Rightarrow> nat \<Rightarrow> mref \<Rightarrow> PASS_TYPE \<Rightarrow> 'm net \<Rightarrow> 'm outcome" where
  "bpropWeights B l v p \<sigma> =
     (if kind (layers \<sigma> l) = FCLayer then FCLayer_bpropWeights B l v p \<sigma>
      else if kind (layers \<sigma> l) = ConvLayer then ConvLayer_bpropWeights B l v p \<sigma>
      else Done \<sigma>)"

subsection \<open>\<^verbatim>\<open>truncBwdActs\<close>\<close>

text \<open>\<^verbatim>\<open>Layer::truncBwdActs\<close>.\<close>

definition Layer_truncBwdActs :: "'m backend \<Rightarrow> nat \<Rightarrow> 'm net \<Rightarrow> 'm net" where
  "Layer_truncBwdActs B l \<sigma> =
     (let \<sigma>1 = (if \<not> saveActGrads \<sigma> then updL l (\<lambda>x. x\<lparr>actGrads := truncateM B (actGrads x)\<rparr>) \<sigma>
                else \<sigma>)
      in if \<not> saveActs \<sigma>1 then updL l (\<lambda>x. x\<lparr>acts := truncateM B (acts x)\<rparr>) \<sigma>1 else \<sigma>1)"

text \<open>The virtual call \<^verbatim>\<open>truncBwdActs()\<close>, with the overrides of \<^verbatim>\<open>ConvLayer\<close>,
  \<^verbatim>\<open>ResponseNormLayer\<close> and \<^verbatim>\<open>ContrastNormLayer\<close> (which calls the one of
  \<^verbatim>\<open>ResponseNormLayer\<close> first).\<close>

definition truncBwdActs :: "'m backend \<Rightarrow> nat \<Rightarrow> 'm net \<Rightarrow> 'm net" where
  "truncBwdActs B l \<sigma> =
     (let \<sigma>1 = Layer_truncBwdActs B l \<sigma>; k = kind (layers \<sigma> l) in
      if k = ConvLayer then
        (if \<not> saveActGrads \<sigma>1
         then updL l (\<lambda>x. x\<lparr>weightGradsTmp := truncateM B (weightGradsTmp x)\<rparr>) \<sigma>1 else \<sigma>1)
      else if k = ResponseNormLayer \<or> k = ContrastNormLayer then
        (let \<sigma>2 = (if \<not> saveActs \<sigma>1
                    then updL l (\<lambda>x. x\<lparr>denoms := truncateM B (denoms x)\<rparr>) \<sigma>1 else \<sigma>1)
         in if k = ContrastNormLayer \<and> \<not> saveActs \<sigma>2
            then updL l (\<lambda>x. x\<lparr>meanDiffs := truncateM B (meanDiffs x)\<rparr>) \<sigma>2 else \<sigma>2)
      else \<sigma>1)"

subsection \<open>The backward protocol of \<^verbatim>\<open>Layer\<close>\<close>

text \<open>The first loop of \<^verbatim>\<open>Layer::bprop(NVMatrix& v, PASS_TYPE)\<close>: for every predecessor
  that consumes gradients, \<^verbatim>\<open>bpropActs(v, i, passType)\<close> and then
  \<^verbatim>\<open>_prev[i]->incRcvdBInputs()\<close>.\<close>

fun bpropActs_loop ::
  "'m backend \<Rightarrow> nat \<Rightarrow> mref \<Rightarrow> PASS_TYPE \<Rightarrow> nat list \<Rightarrow> 'm net \<Rightarrow> 'm outcome" where
  "bpropActs_loop B l v p [] \<sigma> = Done \<sigma>"
| "bpropActs_loop B l v p (i # is) \<sigma> =
     (let q = prev (layers \<sigma> l) ! i in
      if isGradConsumer \<sigma> q then
        (case bpropActs B l v i p \<sigma> of
           Done \<sigma>' \<Rightarrow> bpropActs_loop B l v p is (incRcvdBInputs q \<sigma>')
         | r \<Rightarrow> r)
      else bpropActs_loop B l v p is \<sigma>)"

text \<open>\<^verbatim>\<open>Layer::bprop(NVMatrix& v, PASS_TYPE)\<close> up to and including \<^verbatim>\<open>truncBwdActs\<close>.\<close>

definition Layer_bprop_body ::
  "'m backend \<Rightarrow> nat \<Rightarrow> mref \<Rightarrow> PASS_TYPE \<Rightarrow> 'm net \<Rightarrow> 'm outcome" where
  "Layer_bprop_body B l v p \<sigma> =
     (let t = transL (layers \<sigma> l);
          \<sigma>1 = transpose t v \<sigma>;
          \<sigma>2 = fold (\<lambda>q s. transpose t (ActGradsOf q) (transpose t (ActsOf q) s))
                     (prev (layers \<sigma> l)) \<sigma>1;
          \<sigma>3 = transpose t (ActsOf l) \<sigma>2;
          \<sigma>4 = bpropCommon B l v p (emit (EvBpropCommon l (deref \<sigma>3 v)) \<sigma>3)
      in case (if isGradProducer \<sigma>4 l
               then bpropActs_loop B l v p [0..<length (prev (layers \<sigma>4 l))] \<sigma>4
               else Done \<sigma>4) of
           Done \<sigma>5 \<Rightarrow>
             (case bpropWeights B l v p (emit (EvBpropWeights l) \<sigma>5) of
                Done \<sigma>6 \<Rightarrow> Done (truncBwdActs B l \<sigma>6)
              | r \<Rightarrow> r)
         | r \<Rightarrow> r)"

text \<open>
  \<^verbatim>\<open>Layer::bprop(PASS_TYPE)\<close> with the override \<^verbatim>\<open>CostLayer::bprop(PASS_TYPE)\<close> (the
  logistic-regression cost layer is the one class derived from \<^verbatim>\<open>CostLayer\<close>), and the
  second loop of \<^verbatim>\<open>Layer::bprop(NVMatrix&, PASS_TYPE)\<close>, which calls \<^verbatim>\<open>bprop\<close> of the
  predecessors that consume gradients. Fuel as in the forward pass.
\<close>

fun bprop :: "'m backend \<Rightarrow> nat \<Rightarrow> nat \<Rightarrow> PASS_TYPE \<Rightarrow> 'm net \<Rightarrow> 'm outcome"
and bpropPrev :: "'m backend \<Rightarrow> nat \<Rightarrow> nat list \<Rightarrow> PASS_TYPE \<Rightarrow> 'm net \<Rightarrow> 'm outcome"
where
  "bprop B 0 l p \<sigma> = OutOfFuel"
| "bprop B (Suc n) l p \<sigma> =
     (if kind (layers \<sigma> l) = LogregCostLayer \<and> coeff (layers \<sigma> l) = 0 then Done \<sigma>
      else
        let \<sigma>0 = emit (EvBprop l) \<sigma> in
        if rcvdBInputs (layers \<sigma>0 l) = numGradProducersNext (layers \<sigma>0 l) then
          (case Layer_bprop_body B l (ActGradsOf l) p
                  (updL l (\<lambda>x. x\<lparr>rcvdBInputs := rcvdBInputs x + 1\<rparr>) \<sigma>0) of
             Done \<sigma>1 \<Rightarrow>
               (if isGradProducer \<sigma>1 l then bpropPrev B n (prev (layers \<sigma>1 l)) p \<sigma>1 else Done \<sigma>1)
           | r \<Rightarrow> r)
        else Done \<sigma>0)"
| "bpropPrev B n [] p \<sigma> = Done \<sigma>"
| "bpropPrev B n (q # qs) p \<sigma> =
     (if isGradConsumer \<sigma> q then
        (case bprop B n q p \<sigma> of Done \<sigma>' \<Rightarrow> bpropPrev B n qs p \<sigma>' | r \<Rightarrow> r)
      else bpropPrev B n qs p \<sigma>)"

text \<open>\<^verbatim>\<open>Layer::bprop(NVMatrix& v, PASS_TYPE)\<close> as a whole.\<close>

definition bprop_v ::
  "'m backend \<Rightarrow> nat \<Rightarrow> nat \<Rightarrow> mref \<Rightarrow> PASS_TYPE \<Rightarrow> 'm net \<Rightarrow> 'm outcome" where
  "bprop_v B n l v p \<sigma> =
     (case Layer_bprop_body B l v p \<sigma> of
        Done \<sigma>1 \<Rightarrow>
          (if isGradProducer \<sigma>1 l then bpropPrev B n (prev (layers \<sigma>1 l)) p \<sigma>1 else Done \<sigma>1)
      | r \<Rightarrow> r)"


section \<open>A concrete backend and a concrete network\<close>

text \<open>
  The theorems below hold for every backend. To evaluate the model on concrete stores,
  \<open>toyBackend\<close> takes the reals as matrices (one-by-one matrices): products are
  products, every gradient kernel adds its contribution to the scaled target, the
  neuron is the identity.
\<close>

definition toyBackend :: "real backend" where
  "toyBackend = \<lparr>
     rightMult = (\<lambda>a b. a * b),
     addProduct = (\<lambda>t a b s1 s2. s1 * t + s2 * (a * b)),
     addVector = (\<lambda>t v s. t + s * v),
     addScaled = (\<lambda>t b sa sb. sa * t + sb * b),
     sumAxis = (\<lambda>ax m. m),
     maxAxis = (\<lambda>ax m. m),
     sumAll = (\<lambda>m. m),
     getTranspose = (\<lambda>m. m),
     getNumRows = (\<lambda>m. 1),
     getNumElements = (\<lambda>m. 1),
     reshape = (\<lambda>r c m. m),
     applyExp = (\<lambda>m. 1 + m * m),
     eltwiseDivideByVector = (\<lambda>m v. m / v),
     truncateM = (\<lambda>m. 0),
     activate = (\<lambda>nm m. m),
     computeInputGrads = (\<lambda>nm a v. v),
     convFilterActs = (\<lambda>img w ps. img * w),
     convWeightActs = (\<lambda>a v t ps. a * v),
     convImgActs = (\<lambda>v w t ps st so. st * t + so * (v * w)),
     convLocalPool = (\<lambda>img ps pl. img),
     convLocalMaxUndo = (\<lambda>a v ac t ps st so. st * t + so * v),
     convLocalAvgUndo = (\<lambda>v t ps st so. st * t + so * v),
     convResponseNorm = (\<lambda>img ps fs. (1, img)),
     convResponseNormUndo = (\<lambda>v d a ac t ps fs st so. st * t + so * v),
     convContrastNorm = (\<lambda>img md ps fs. (1, md)),
     convContrastNormUndo = (\<lambda>v d md ac t ps fs st so. st * t + so * v),
     computeLogregCost = (\<lambda>lb pr. (lb * pr, lb * pr)),
     computeLogregGrads = (\<lambda>lb pr t add c. (if add then t else 0) + c * lb),
     computeLogregSoftmaxGrads = (\<lambda>lb pr t add c. (if add then t else 0) + c * (pr - lb)),
     computeSoftmaxGrads = (\<lambda>a v t add. (if add then t else 0) + a * v)\<rparr>"

definition blank :: "real layer" where
  "blank = \<lparr>kind = DataLayer, name = [], type = [], gradConsumer = False, gradProducer = False,
     transL = False, prev = [], next = [], acts = 0, actsTrans = False, actsView = False,
     actGrads = 0, actGradsTrans = False, rcvdFInputs = 0, rcvdBInputs = 0,
     numGradProducersNext = 0, weights = [],
     convWeights = \<lparr>getW = 0, getInc = 0, getGrads = 0, getEps = 0, getWc = 0, getMom = 0\<rparr>,
     biases = \<lparr>getW = 0, getInc = 0, getGrads = 0, getEps = 0, getWc = 0, getMom = 0\<rparr>,
     neuron = [],
     geom = \<lparr>padding = 0, stride = 1, filterSize = 1, modulesX = 1, channels = 1, imgSize = 1,
              numFilters = 1, partialSum = 0, sharedBiases = 0, modules = 1, filterPixels = 1,
              imgPixels = 1, sizeX = 1, start = 0, outputsX = 1, scale = 1, pow = 1\<rparr>,
     weightGradsTmp = 0, denoms = 0, meanDiffs = 0, pool = [], coeff = 0, err = [], dataIdx = 0\<rparr>"

definition store0 :: "real net" where
  "store0 = \<lparr>layers = (\<lambda>_. blank), ext = (\<lambda>_. 0)(0 := 3, 1 := 1), extTrans = (\<lambda>_. False),
             saveActs = True, saveActGrads = True, trace = []\<rparr>"

text \<open>
  The network of the end-to-end scenario: labels (layer 0) and images (layer 1) are data
  layers, the images feed a fully-connected layer (2), that feeds a softmax layer (3),
  and the cost layer (4) has the labels as first and the softmax layer as second
  predecessor. \<open>c\<close> is the coefficient of the cost layer. All layers are reset.
\<close>

definition exNet :: "real \<Rightarrow> real net" where
  "exNet c =
     (let w = \<lparr>getW = 2, getInc = 0, getGrads = 0, getEps = 1, getWc = 0, getMom = 1 / 2\<rparr>;
          \<sigma>0 = store0\<lparr>layers := (\<lambda>_. blank)
                  (0 := DataLayer_ctor blank ''labels'' ''data'' 1,
                   1 := DataLayer_ctor blank ''images'' ''data'' 0,
                   2 := FCLayer_ctor blank ''fc'' ''fc'' [w] w ''ident'',
                   3 := SoftmaxLayer_ctor blank ''probs'' ''softmax'',
                   4 := LogregCostLayer_ctor blank ''logprob'' ''cost.logreg'' c)\<rparr>
      in fold reset [0, 1, 2, 3, 4]
           (addEdge 3 4 (addEdge 0 4 (addEdge 2 3 (addEdge 1 2 \<sigma>0)))))"


section \<open>What the specification says about the matrix library\<close>

text \<open>
  Modelled from the spec: \<^verbatim>\<open>NVMatrix::addProduct\<close> and \<^verbatim>\<open>NVMatrix::rightMult\<close> are
  not among the sources. Section 6 describes the first as product-accumulate with one
  scale factor for the existing contents and one for the new contribution, the second is
  the matrix product: \<open>this := scaleThis * this + scaleAB * (a * b)\<close>.
\<close>

definition productAccumulate :: "('m::real_vector) backend \<Rightarrow> bool" where
  "productAccumulate B \<longleftrightarrow>
     (\<forall>t a b s1 s2. addProduct B t a b s1 s2 = s1 *\<^sub>R t + s2 *\<^sub>R rightMult B a b)"


text \<open>The value that one iteration of the loop of \<^verbatim>\<open>FCLayer::bpropWeights\<close> stores in
  the increment of a weight group \<open>w\<close>, from the activations of the predecessor and the
  incoming gradient \<open>g\<close>.\<close>

definition fcInc :: "'m backend \<Rightarrow> PASS_TYPE \<Rightarrow> 'm \<Rightarrow> 'm \<Rightarrow> 'm Weights \<Rightarrow> 'm" where
  "fcInc B p prevActs g w =
     addProduct B (getInc w) (getTranspose B prevActs) g
       ((if p \<noteq> PASS_GC then 1 else 0) * getMom w)
       (if p = PASS_GC then 1 else getEps w / real_of_int (getNumRows B g))"


text \<open>The example network with activations 3 in the images layer, gradient 5 in the
  fully-connected layer and weight increment 4.\<close>

definition wNet :: "real net" where
  "wNet = updL 1 (\<lambda>x. x\<lparr>acts := 3\<rparr>)
            (updL 2 (\<lambda>x. x\<lparr>actGrads := 5,
                          weights := [\<lparr>getW = 2, getInc = 4, getGrads = 0, getEps = 1, getWc = 0,
                                       getMom = 1 / 2\<rparr>]\<rparr>) (exNet 1))"


section \<open>Reading the trace\<close>

text \<open>The events of gradient kernel \<open>k\<close> run by layer \<open>s\<close>.\<close>

definition gradEvents :: "gradKernel \<Rightarrow> nat \<Rightarrow> 'm event list \<Rightarrow> 'm event list" where
  "gradEvents k s tr =
     filter (\<lambda>e. case e of EvGrad k' s' i q c \<Rightarrow> k' = k \<and> s' = s | _ \<Rightarrow> False) tr"


text \<open>The example network with coefficient 2, labels 1, softmax output 1/4 and an old
  value 7 in the activation-gradient buffer of the fully-connected layer.\<close>

definition fNet :: "real net" where
  "fNet = updL 0 (\<lambda>x. x\<lparr>acts := 1\<rparr>) (updL 3 (\<lambda>x. x\<lparr>acts := 1 / 4\<rparr>)
            (updL 2 (\<lambda>x. x\<lparr>actGrads := 7\<rparr>) (exNet 2)))"


section \<open>Traces of the forward pass\<close>

text \<open>The state in which a call ends, if it ends.\<close>
fun final :: "'m outcome \<Rightarrow> 'm net option" where
  "final (Done \<sigma>) = Some \<sigma>"
| "final (Raised e \<sigma>) = Some \<sigma>"
| "final OutOfFuel = None"

text \<open>The members of a layer that no pass changes: its class, type tag, flags,
  adjacency lists, successor count, coefficient and pooling kind.\<close>

definition graph ::
  "'m layer \<Rightarrow> kind \<times> string \<times> bool \<times> bool \<times> nat list \<times> nat list \<times> int \<times> real \<times> string" where
  "graph L = (kind L, type L, gradConsumer L, gradProducer L, prev L, next L,
              numGradProducersNext L, coeff L, pool L)"

text \<open>Two stores agree on the graph, on both fan-in counters of every layer and on the
  two static switches (they may differ in buffers, weights and trace).\<close>

definition sameCtl :: "'m net \<Rightarrow> 'm net \<Rightarrow> bool" where
  "sameCtl \<sigma> \<sigma>' \<longleftrightarrow>
     (\<forall>x. graph (layers \<sigma>' x) = graph (layers \<sigma> x)
          \<and> rcvdFInputs (layers \<sigma>' x) = rcvdFInputs (layers \<sigma> x)
          \<and> rcvdBInputs (layers \<sigma>' x) = rcvdBInputs (layers \<sigma> x))
     \<and> saveActs \<sigma>' = saveActs \<sigma> \<and> saveActGrads \<sigma>' = saveActGrads \<sigma>"

text \<open>The forward events of layer \<open>t\<close> in a trace: the calls of
  \<^verbatim>\<open>Layer::fprop(PASS_TYPE)\<close> on \<open>t\<close> and the runs of its \<^verbatim>\<open>fpropActs\<close>.\<close>

definition fwdEvents :: "nat \<Rightarrow> 'm event list \<Rightarrow> 'm event list" where
  "fwdEvents t tr = filter (\<lambda>e. e = EvFprop t \<or> e = EvFpropActs t) tr"

text \<open>
  What the specification says these events are after \<open>c\<close> calls on a layer with \<open>N\<close>
  predecessors: the calls in order, with one run of \<^verbatim>\<open>fpropActs\<close> right after the
  \<open>N\<close>th call and none when \<open>c < N\<close>.
\<close>

definition fwdPattern :: "nat \<Rightarrow> nat \<Rightarrow> nat \<Rightarrow> 'm event list" where
  "fwdPattern t N c =
     replicate (min c N) (EvFprop t)
     @ (if N \<le> c then EvFpropActs t # replicate (c - N) (EvFprop t) else [])"

text \<open>The invariant of the forward pass for layer \<open>t\<close>: since the events \<open>base\<close>, the
  counter of \<open>t\<close> counts the calls and the events follow the pattern.\<close>

definition FInv :: "nat \<Rightarrow> nat \<Rightarrow> 'm event list \<Rightarrow> 'm net \<Rightarrow> bool" where
  "FInv t N base \<sigma> \<longleftrightarrow>
     kind (layers \<sigma> t) \<noteq> DataLayer \<and> length (prev (layers \<sigma> t)) = N
     \<and> 0 \<le> rcvdFInputs (layers \<sigma> t)
     \<and> fwdEvents t (trace \<sigma>) = base @ fwdPattern t N (nat (rcvdFInputs (layers \<sigma> t)))"

text \<open>
  A forward pass as the driver sees it: a sequence of calls of \<^verbatim>\<open>fprop(passType)\<close> or of
  the list-based \<^verbatim>\<open>fprop(v, passType)\<close> on any layers, each with the same fuel; the first
  call that does not return ends the run.
\<close>

datatype fcall = Fprop nat | FpropV nat "mref list"

fun forwardRun :: "'m backend \<Rightarrow> nat \<Rightarrow> PASS_TYPE \<Rightarrow> fcall list \<Rightarrow> 'm net \<Rightarrow> 'm outcome" where
  "forwardRun B n p [] \<sigma> = Done \<sigma>"
| "forwardRun B n p (Fprop l # cs) \<sigma> =
     (case fprop B n l p \<sigma> of Done \<sigma>' \<Rightarrow> forwardRun B n p cs \<sigma>' | r \<Rightarrow> r)"
| "forwardRun B n p (FpropV l v # cs) \<sigma> =
     (case fprop_v B n l v p \<sigma> of Done \<sigma>' \<Rightarrow> forwardRun B n p cs \<sigma>' | r \<Rightarrow> r)"

text \<open>The layers whose forward computation can still be triggered by calls of
  \<^verbatim>\<open>fprop(passType)\<close>: their number bounds the depth of the recursion.\<close>

definition unfired :: "'m net \<Rightarrow> nat set" where
  "unfired \<sigma> = {l. kind (layers \<sigma> l) \<noteq> DataLayer
                   \<and> rcvdFInputs (layers \<sigma> l) < int (length (prev (layers \<sigma> l)))}"


section \<open>The backward pass: steps, traces and invariants\<close>

text \<open>
  Modelled from the spec: the gradient kernels and \<^verbatim>\<open>NVMatrix::addProduct\<close> are not
  among the sources. Sections 4.1 and 6 describe the second branch of every
  \<^verbatim>\<open>bpropActs\<close> as adding the contribution to the target: a kernel called with
  \<^verbatim>\<open>scaleTargets = 1\<close>, with \<^verbatim>\<open>add = true\<close> or as \<^verbatim>\<open>addProduct\<close> with its default
  factors stores the old target plus what it stores when it overwrites.
\<close>

definition accumulates :: "('m::plus) backend \<Rightarrow> bool" where
  "accumulates B \<longleftrightarrow>
     (\<forall>t a b. addProduct B t a b 1 1 = t + rightMult B a b)
   \<and> (\<forall>v w t ps. convImgActs B v w t ps 1 1 = t + convImgActs B v w t ps 0 1)
   \<and> (\<forall>lb pr t c. computeLogregSoftmaxGrads B lb pr t True c
                   = t + computeLogregSoftmaxGrads B lb pr t False c)
   \<and> (\<forall>a v t. computeSoftmaxGrads B a v t True = t + computeSoftmaxGrads B a v t False)
   \<and> (\<forall>a v ac t ps. convLocalMaxUndo B a v ac t ps 1 1 = t + convLocalMaxUndo B a v ac t ps 0 1)
   \<and> (\<forall>v t ps. convLocalAvgUndo B v t ps 1 1 = t + convLocalAvgUndo B v t ps 0 1)
   \<and> (\<forall>v d a ac t ps fs. convResponseNormUndo B v d a ac t ps fs 1 1
                          = t + convResponseNormUndo B v d a ac t ps fs 0 1)
   \<and> (\<forall>v d md ac t ps fs. convContrastNormUndo B v d md ac t ps fs 1 1
                           = t + convContrastNormUndo B v d md ac t ps fs 0 1)
   \<and> (\<forall>lb pr t c. computeLogregGrads B lb pr t True c = t + computeLogregGrads B lb pr t False c)"

text \<open>A step that changes neither the graph, nor a counter, nor the trace, nor a
  gradient buffer (the orientation flags set at the start of \<^verbatim>\<open>Layer::bprop(v)\<close>).\<close>

definition flagStep :: "'m net \<Rightarrow> 'm net \<Rightarrow> bool" where
  "flagStep \<sigma> \<sigma>' \<longleftrightarrow>
     sameCtl \<sigma> \<sigma>' \<and> trace \<sigma>' = trace \<sigma> \<and> (\<forall>x. actGrads (layers \<sigma>' x) = actGrads (layers \<sigma> x))"

text \<open>A step of layer \<open>l\<close> on its own buffers (\<^verbatim>\<open>bpropCommon\<close>, \<^verbatim>\<open>bpropWeights\<close>,
  \<^verbatim>\<open>truncBwdActs\<close>): graph and counters stay, the gradient buffers of the other layers
  stay, the trace gains at most the event of \<^verbatim>\<open>bpropWeights\<close>.\<close>

definition bufStep :: "nat \<Rightarrow> 'm net \<Rightarrow> 'm net \<Rightarrow> bool" where
  "bufStep l \<sigma> \<sigma>' \<longleftrightarrow>
     sameCtl \<sigma> \<sigma>' \<and> (trace \<sigma>' = trace \<sigma> \<or> trace \<sigma>' = trace \<sigma> @ [EvBpropWeights l])
     \<and> (\<forall>x. x \<noteq> l \<longrightarrow> actGrads (layers \<sigma>' x) = actGrads (layers \<sigma> x))"

text \<open>The cases in which \<^verbatim>\<open>bpropActs\<close> of layer \<open>l\<close> for input \<open>i\<close> returns without
  writing: a data layer (it has the member of the base class), a pooling layer of no
  known kind, and the logistic cost
  layer when its test \<^verbatim>\<open>doWork\<close> fails.\<close>

definition writesNothing :: "'m net \<Rightarrow> nat \<Rightarrow> nat \<Rightarrow> bool" where
  "writesNothing \<sigma> l i \<longleftrightarrow>
     kind (layers \<sigma> l) = DataLayer
     \<or> (kind (layers \<sigma> l) = PoolLayer \<and> pool (layers \<sigma> l) \<noteq> ''max'' \<and> pool (layers \<sigma> l) \<noteq> ''avg'')
     \<or> (kind (layers \<sigma> l) = LogregCostLayer \<and> \<not> doWork \<sigma> l i)"

text \<open>One contribution of layer \<open>l\<close> to its predecessor \<open>i\<close>: the gradient buffer of
  the predecessor gets a new value \<open>g\<close> and the contribution \<open>c\<close> is logged; \<open>g\<close> is \<open>c\<close>
  if the counter of the predecessor is 0, and the old buffer plus \<open>c\<close> if the counter
  is positive and the kernels accumulate.\<close>

definition contributes :: "('m::plus) backend \<Rightarrow> 'm net \<Rightarrow> nat \<Rightarrow> nat \<Rightarrow> 'm net \<Rightarrow> bool" where
  "contributes B \<sigma> l i \<sigma>' \<longleftrightarrow>
     (\<exists>k c g. \<sigma>' = emit (EvGrad k l i (prev (layers \<sigma> l) ! i) c)
                     (updL (prev (layers \<sigma> l) ! i) (\<lambda>x. x\<lparr>actGrads := g\<rparr>) \<sigma>)
            \<and> (rcvdBInputs (layers \<sigma> (prev (layers \<sigma> l) ! i)) = 0 \<longrightarrow> g = c)
            \<and> (accumulates B \<and> 0 < rcvdBInputs (layers \<sigma> (prev (layers \<sigma> l) ! i)) \<longrightarrow>
                 g = actGrads (layers \<sigma> (prev (layers \<sigma> l) ! i)) + c))"

text \<open>A cost layer with coefficient 0: \<^verbatim>\<open>CostLayer::bprop\<close> does nothing.\<close>

definition inert :: "'m net \<Rightarrow> nat \<Rightarrow> bool" where
  "inert \<sigma> l \<longleftrightarrow> kind (layers \<sigma> l) = LogregCostLayer \<and> coeff (layers \<sigma> l) = 0"

text \<open>The steps of \<^verbatim>\<open>Layer::bprop(v)\<close> of layer \<open>l\<close> after \<^verbatim>\<open>bpropCommon\<close> has been
  logged: a step on its own buffers, or one round of the loop over the predecessors,
  which writes a contribution or not and then increments the counter of the
  predecessor.\<close>

inductive lstep :: "('m::plus) backend \<Rightarrow> nat \<Rightarrow> 'm net \<Rightarrow> 'm net \<Rightarrow> bool" for B l where
  buf: "bufStep l \<sigma> \<sigma>' \<Longrightarrow> lstep B l \<sigma> \<sigma>'"
| contrib:
    "gradProducer (layers \<sigma> l) \<Longrightarrow> i < length (prev (layers \<sigma> l)) \<Longrightarrow> \<not> writesNothing \<sigma> l i \<Longrightarrow>
     contributes B \<sigma> l i \<sigma>1 \<Longrightarrow>
     lstep B l \<sigma> (incRcvdBInputs (prev (layers \<sigma> l) ! i) \<sigma>1)"
| skip:
    "gradProducer (layers \<sigma> l) \<Longrightarrow> i < length (prev (layers \<sigma> l)) \<Longrightarrow> writesNothing \<sigma> l i \<Longrightarrow>
     lstep B l \<sigma> (incRcvdBInputs (prev (layers \<sigma> l) ! i) \<sigma>)"

text \<open>
  A backward pass as the driver sees it: a sequence of calls of \<^verbatim>\<open>bprop(passType)\<close> on
  any layers, each with the same fuel; the first call that does not return normally
  ends the run.
\<close>

fun backwardRun :: "'m backend \<Rightarrow> nat \<Rightarrow> PASS_TYPE \<Rightarrow> nat list \<Rightarrow> 'm net \<Rightarrow> 'm outcome" where
  "backwardRun B n p [] \<sigma> = Done \<sigma>"
| "backwardRun B n p (l # ls) \<sigma> =
     (case bprop B n l p \<sigma> of Done \<sigma>' \<Rightarrow> backwardRun B n p ls \<sigma>' | r \<Rightarrow> r)"

text \<open>The gradients on which the backward computation of layer \<open>t\<close> has started, in
  the order of the trace.\<close>

fun bwdFires :: "nat \<Rightarrow> 'm event list \<Rightarrow> 'm list" where
  "bwdFires t [] = []"
| "bwdFires t (EvBpropCommon l v # tr) = (if l = t then v # bwdFires t tr else bwdFires t tr)"
| "bwdFires t (e # tr) = bwdFires t tr"

text \<open>The contributions written into the gradient buffer of layer \<open>t\<close>, in the order
  of the trace.\<close>

fun contribs :: "nat \<Rightarrow> 'm event list \<Rightarrow> 'm list" where
  "contribs t [] = []"
| "contribs t (EvGrad k s i q c # tr) = (if q = t then c # contribs t tr else contribs t tr)"
| "contribs t (e # tr) = contribs t tr"

text \<open>The invariant of the backward pass for layer \<open>t\<close> with successor count \<open>K\<close>: since
  position \<open>n0\<close> of the trace the backward computation of \<open>t\<close> has started at most
  once, and if it has, the counter is above \<open>K\<close>.\<close>

definition CInv :: "nat \<Rightarrow> int \<Rightarrow> nat \<Rightarrow> 'm net \<Rightarrow> bool" where
  "CInv t K n0 \<sigma> \<longleftrightarrow>
     numGradProducersNext (layers \<sigma> t) = K \<and> n0 \<le> length (trace \<sigma>)
     \<and> length (bwdFires t (drop n0 (trace \<sigma>))) \<le> 1
     \<and> (bwdFires t (drop n0 (trace \<sigma>)) \<noteq> [] \<longrightarrow> K < rcvdBInputs (layers \<sigma> t))"

text \<open>The layers whose backward computation can still be triggered: their number
  bounds the depth of the recursion.\<close>

definition canFire :: "'m net \<Rightarrow> nat set" where
  "canFire \<sigma> = {l. \<not> inert \<sigma> l
                   \<and> rcvdBInputs (layers \<sigma> l) \<le> numGradProducersNext (layers \<sigma> l)}"

text \<open>A set of layers that contains the predecessors of its members.\<close>

definition prevClosed :: "'m net \<Rightarrow> nat set \<Rightarrow> bool" where
  "prevClosed \<sigma> A \<longleftrightarrow> (\<forall>a\<in>A. set (prev (layers \<sigma> a)) \<subseteq> A)"

text \<open>Two stores with the same graph.\<close>

definition sameGraph :: "'m net \<Rightarrow> 'm net \<Rightarrow> bool" where
  "sameGraph \<sigma> \<sigma>' \<longleftrightarrow> (\<forall>x. graph (layers \<sigma>' x) = graph (layers \<sigma> x))"

text \<open>What the constructors establish: a data layer produces no gradients
  (\<^verbatim>\<open>DataLayer\<close> passes \<^verbatim>\<open>false\<close>), and a pooling layer is of kind max or avg
  (the constructor of \<^verbatim>\<open>PoolLayer\<close> throws otherwise).\<close>

definition wellFormed :: "'m net \<Rightarrow> bool" where
  "wellFormed \<sigma> \<longleftrightarrow>
     (\<forall>l. (kind (layers \<sigma> l) = DataLayer \<longrightarrow> \<not> gradProducer (layers \<sigma> l))
        \<and> (kind (layers \<sigma> l) = PoolLayer \<longrightarrow>
             pool (layers \<sigma> l) = ''max'' \<or> pool (layers \<sigma> l) = ''avg''))"

text \<open>No logistic cost layer skips its contribution to layer \<open>t\<close>: if \<open>t\<close> has the
  type tag of a softmax layer and at most one successor, then \<open>t\<close> is not a predecessor
  of a gradient-producing logistic cost layer.\<close>

definition noSkipInto :: "'m net \<Rightarrow> nat \<Rightarrow> bool" where
  "noSkipInto \<sigma> t \<longleftrightarrow>
     (type (layers \<sigma> t) = ''softmax'' \<and> length (next (layers \<sigma> t)) \<le> 1 \<longrightarrow>
        (\<forall>l. kind (layers \<sigma> l) = LogregCostLayer \<and> gradProducer (layers \<sigma> l) \<longrightarrow>
              t \<notin> set (prev (layers \<sigma> l))))"

text \<open>The invariant of the gradient buffer of layer \<open>t\<close> with \<open>K \<ge> 1\<close>
  gradient-producing successors: as long as the backward computation of \<open>t\<close> has not
  started, the counter is the number of contributions and the buffer is their sum; once
  it has started, it has started on the sum of the first \<open>K\<close> contributions.\<close>

definition GInv :: "nat \<Rightarrow> nat \<Rightarrow> nat \<Rightarrow> ('m::comm_monoid_add) net \<Rightarrow> bool" where
  "GInv t K n0 \<sigma> \<longleftrightarrow>
     numGradProducersNext (layers \<sigma> t) = int K \<and> 1 \<le> K \<and> n0 \<le> length (trace \<sigma>)
     \<and> wellFormed \<sigma> \<and> noSkipInto \<sigma> t
     \<and> (bwdFires t (drop n0 (trace \<sigma>)) = [] \<longrightarrow>
           rcvdBInputs (layers \<sigma> t) = int (length (contribs t (drop n0 (trace \<sigma>))))
           \<and> (contribs t (drop n0 (trace \<sigma>)) \<noteq> [] \<longrightarrow>
                actGrads (layers \<sigma> t) = sum_list (contribs t (drop n0 (trace \<sigma>)))))
     \<and> (bwdFires t (drop n0 (trace \<sigma>)) \<noteq> [] \<longrightarrow>
           int K < rcvdBInputs (layers \<sigma> t)
           \<and> K \<le> length (contribs t (drop n0 (trace \<sigma>)))
           \<and> bwdFires t (drop n0 (trace \<sigma>)) = [sum_list (take K (contribs t (drop n0 (trace \<sigma>))))])"

text \<open>While layer \<open>l\<close> runs its backward computation: if \<open>l\<close> is \<open>t\<close>, the computation
  of \<open>t\<close> has started.\<close>

definition hasFired :: "nat \<Rightarrow> nat \<Rightarrow> nat \<Rightarrow> 'm net \<Rightarrow> bool" where
  "hasFired t n0 l \<sigma> \<longleftrightarrow> (l = t \<longrightarrow> bwdFires t (drop n0 (trace \<sigma>)) \<noteq> [])"

text \<open>The trace of a store starts with the events \<open>pre\<close>.\<close>

definition extends :: "'m event list \<Rightarrow> 'm net \<Rightarrow> bool" where
  "extends pre \<sigma> \<longleftrightarrow> take (length pre) (trace \<sigma>) = pre"

text \<open>The example network with a stale gradient 7 in the buffer of the softmax
  layer.\<close>

definition cNet :: "real net" where
  "cNet = updL 3 (\<lambda>x. x\<lparr>actGrads := 7\<rparr>) (exNet 1)"

text \<open>A network in which the fully-connected layer 2 has two gradient-producing
  successors, the fully-connected layers 3 and 4, with gradients 5 and 3 in their
  buffers and weight 2 on every edge; layer 1 is the data layer.\<close>

definition dNet :: "real net" where
  "dNet =
     (let w = \<lparr>getW = 2, getInc = 0, getGrads = 0, getEps = 1, getWc = 0, getMom = 1 / 2\<rparr>;
          \<sigma>0 = store0\<lparr>layers := (\<lambda>_. blank)
                  (1 := DataLayer_ctor blank ''images'' ''data'' 0,
                   2 := FCLayer_ctor blank ''fc1'' ''fc'' [w] w ''ident'',
                   3 := FCLayer_ctor blank ''fc2'' ''fc'' [w] w ''ident'',
                   4 := FCLayer_ctor blank ''fc3'' ''fc'' [w] w ''ident'')\<rparr>
      in updL 3 (\<lambda>x. x\<lparr>actGrads := 5\<rparr>) (updL 4 (\<lambda>x. x\<lparr>actGrads := 3\<rparr>)
           (fold reset [1, 2, 3, 4] (addEdge 2 4 (addEdge 2 3 (addEdge 1 2 \<sigma>0))))))"


section \<open>Member calls, writers and contributions\<close>

text \<open>
  The member calls in the life of a store: an edge added at one end (\<^verbatim>\<open>addNext\<close>,
  \<^verbatim>\<open>addPrev\<close>) or at both, \<^verbatim>\<open>reset()\<close>, and the forward and backward entry points
  (\<^verbatim>\<open>fprop(passType)\<close>, \<^verbatim>\<open>fprop(v, passType)\<close> on a list or on one matrix,
  \<^verbatim>\<open>bprop(passType)\<close>, \<^verbatim>\<open>bprop(v, passType)\<close>), each with its fuel.
\<close>

datatype mcall =
    MAddNext nat nat
  | MAddPrev nat nat
  | MAddEdge nat nat
  | MReset nat
  | MFprop nat nat PASS_TYPE
  | MFpropV nat nat "mref list" PASS_TYPE
  | MFprop1 nat nat mref PASS_TYPE
  | MBprop nat nat PASS_TYPE
  | MBpropV nat nat mref PASS_TYPE

text \<open>The store after a call: the one in which it ended, normally or by an exception
  (the store as it was, if the fuel did not suffice).\<close>

definition ended :: "'m net \<Rightarrow> 'm outcome \<Rightarrow> 'm net" where
  "ended \<sigma> r = (case final r of Some \<sigma>' \<Rightarrow> \<sigma>' | None \<Rightarrow> \<sigma>)"

text \<open>One member call on the store.\<close>

fun perform :: "'m backend \<Rightarrow> mcall \<Rightarrow> 'm net \<Rightarrow> 'm net" where
  "perform B (MAddNext a b) \<sigma> = addNext a b \<sigma>"
| "perform B (MAddPrev b a) \<sigma> = addPrev b a \<sigma>"
| "perform B (MAddEdge a b) \<sigma> = addEdge a b \<sigma>"
| "perform B (MReset l) \<sigma> = reset l \<sigma>"
| "perform B (MFprop n l p) \<sigma> = ended \<sigma> (fprop B n l p \<sigma>)"
| "perform B (MFpropV n l v p) \<sigma> = ended \<sigma> (fprop_v B n l v p \<sigma>)"
| "perform B (MFprop1 n l v p) \<sigma> = ended \<sigma> (fprop_1 B n l v p \<sigma>)"
| "perform B (MBprop n l p) \<sigma> = ended \<sigma> (bprop B n l p \<sigma>)"
| "perform B (MBpropV n l v p) \<sigma> = ended \<sigma> (bprop_v B n l v p \<sigma>)"

text \<open>A sequence of member calls on the store, in order.\<close>

definition lifetime :: "'m backend \<Rightarrow> mcall list \<Rightarrow> 'm net \<Rightarrow> 'm net" where
  "lifetime B cs \<sigma> = fold (perform B) cs \<sigma>"

text \<open>Two stores in which every layer has the same class, the same coefficient and
  the same \<^verbatim>\<open>_gradProducer\<close> flag.\<close>

definition sameClass :: "'m net \<Rightarrow> 'm net \<Rightarrow> bool" where
  "sameClass \<sigma> \<sigma>' \<longleftrightarrow>
     (\<forall>x. kind (layers \<sigma>' x) = kind (layers \<sigma> x) \<and> coeff (layers \<sigma>' x) = coeff (layers \<sigma> x)
          \<and> gradProducer (layers \<sigma>' x) = gradProducer (layers \<sigma> x))"

text \<open>The layers of the example network as the constructors leave them, before any
  edge is added.\<close>

definition bareNet :: "real \<Rightarrow> real net" where
  "bareNet c =
     (let w = \<lparr>getW = 2, getInc = 0, getGrads = 0, getEps = 1, getWc = 0, getMom = 1 / 2\<rparr>
      in store0\<lparr>layers := (\<lambda>_. blank)
                  (0 := DataLayer_ctor blank ''labels'' ''data'' 1,
                   1 := DataLayer_ctor blank ''images'' ''data'' 0,
                   2 := FCLayer_ctor blank ''fc'' ''fc'' [w] w ''ident'',
                   3 := SoftmaxLayer_ctor blank ''probs'' ''softmax'',
                   4 := LogregCostLayer_ctor blank ''logprob'' ''cost.logreg'' c)\<rparr>)"

text \<open>
  Modelled from the spec: the gradient kernels are not among the sources. Section 4.1
  describes the first branch of every \<^verbatim>\<open>bpropActs\<close> as overwriting the target with the
  contribution: what a kernel stores with \<^verbatim>\<open>scaleTargets = 0\<close> or \<^verbatim>\<open>add = false\<close> does
  not depend on the old contents of the target.
\<close>

definition overwrites :: "'m backend \<Rightarrow> bool" where
  "overwrites B \<longleftrightarrow>
     (\<forall>v w t t' ps. convImgActs B v w t ps 0 1 = convImgActs B v w t' ps 0 1)
   \<and> (\<forall>lb pr t t' c. computeLogregSoftmaxGrads B lb pr t False c
                      = computeLogregSoftmaxGrads B lb pr t' False c)
   \<and> (\<forall>a v t t'. computeSoftmaxGrads B a v t False = computeSoftmaxGrads B a v t' False)
   \<and> (\<forall>a v ac t t' ps. convLocalMaxUndo B a v ac t ps 0 1 = convLocalMaxUndo B a v ac t' ps 0 1)
   \<and> (\<forall>v t t' ps. convLocalAvgUndo B v t ps 0 1 = convLocalAvgUndo B v t' ps 0 1)
   \<and> (\<forall>v d a ac t t' ps fs. convResponseNormUndo B v d a ac t ps fs 0 1
                             = convResponseNormUndo B v d a ac t' ps fs 0 1)
   \<and> (\<forall>v d md ac t t' ps fs. convContrastNormUndo B v d md ac t ps fs 0 1
                              = convContrastNormUndo B v d md ac t' ps fs 0 1)
   \<and> (\<forall>lb pr t t' c. computeLogregGrads B lb pr t False c = computeLogregGrads B lb pr t' False c)"

text \<open>The contributions written into the gradient buffer of layer \<open>t\<close>, each with the
  layer that wrote it, in the order of the trace.\<close>

fun wcontribs :: "nat \<Rightarrow> 'm event list \<Rightarrow> (nat \<times> 'm) list" where
  "wcontribs t [] = []"
| "wcontribs t (EvGrad k s i q c # tr) = (if q = t then (s, c) # wcontribs t tr else wcontribs t tr)"
| "wcontribs t (e # tr) = wcontribs t tr"

text \<open>The gradient-producing successors of layer \<open>t\<close>, once per edge.\<close>

definition gradSuccs :: "'m net \<Rightarrow> nat \<Rightarrow> nat list" where
  "gradSuccs \<sigma> t = filter (\<lambda>s. gradProducer (layers \<sigma> s)) (next (layers \<sigma> t))"

text \<open>What \<^verbatim>\<open>addNext\<close> and \<^verbatim>\<open>addPrev\<close>, called in pairs, establish around layer \<open>t\<close>: its
  count is the number of its gradient-producing successors, and a gradient-producing
  layer has \<open>t\<close> as a predecessor as often as \<open>t\<close> has it as a successor.\<close>

definition consistentAt :: "'m net \<Rightarrow> nat \<Rightarrow> bool" where
  "consistentAt \<sigma> t \<longleftrightarrow>
     numGradProducersNext (layers \<sigma> t) = int (length (gradSuccs \<sigma> t))
     \<and> (\<forall>s. gradProducer (layers \<sigma> s) \<longrightarrow>
            count_list (prev (layers \<sigma> s)) t = count_list (next (layers \<sigma> t)) s)"

text \<open>From \<open>\<sigma>\<close> to \<open>\<sigma>'\<close> the trace has grown by events among which no backward
  computation starts and at most \<open>m\<close> contributions go into layer \<open>t\<close>, all of them
  written by layer \<open>l\<close>.\<close>

definition writesBy :: "nat \<Rightarrow> nat \<Rightarrow> nat \<Rightarrow> 'm net \<Rightarrow> 'm net \<Rightarrow> bool" where
  "writesBy l t m \<sigma> \<sigma>' \<longleftrightarrow>
     (\<exists>es. trace \<sigma>' = trace \<sigma> @ es \<and> (\<forall>s. bwdFires s es = [])
          \<and> (\<forall>w\<in>set (wcontribs t es). fst w = l) \<and> length (wcontribs t es) \<le> m)"

text \<open>The invariant of the writers into layer \<open>t\<close> since position \<open>n0\<close> of the trace,
  on the graph of \<open>\<sigma>0\<close>: every layer has started its backward computation at most once,
  and a layer has written into \<open>t\<close> only if it has started and produces gradients, at
  most once for every occurrence of \<open>t\<close> among its predecessors.\<close>

definition WInv :: "nat \<Rightarrow> nat \<Rightarrow> 'm net \<Rightarrow> 'm net \<Rightarrow> bool" where
  "WInv t n0 \<sigma>0 \<sigma> \<longleftrightarrow>
     sameGraph \<sigma>0 \<sigma> \<and> n0 \<le> length (trace \<sigma>)
     \<and> (\<forall>s. CInv s (numGradProducersNext (layers \<sigma>0 s)) n0 \<sigma>
           \<and> length (filter (\<lambda>w. fst w = s) (wcontribs t (drop n0 (trace \<sigma>))))
               \<le> (if bwdFires s (drop n0 (trace \<sigma>)) \<noteq> [] \<and> gradProducer (layers \<sigma>0 s)
                   then count_list (prev (layers \<sigma>0 s)) t else 0))"

text \<open>The contribution of layer \<open>l\<close> to its predecessor \<open>i\<close> in store \<open>\<sigma>\<close>: the value that
  \<^verbatim>\<open>bpropActs(_actGrads, i, passType)\<close> of \<open>l\<close> logs for that predecessor, if it writes
  one.\<close>

definition contribution :: "'m backend \<Rightarrow> PASS_TYPE \<Rightarrow> 'm net \<Rightarrow> nat \<Rightarrow> nat \<Rightarrow> 'm option" where
  "contribution B p \<sigma> l i =
     (case bpropActs B l (ActGradsOf l) i p \<sigma> of
        Done \<sigma>' \<Rightarrow> (case wcontribs (prev (layers \<sigma> l) ! i) (drop (length (trace \<sigma>)) (trace \<sigma>')) of
                     [w] \<Rightarrow> Some (snd w)
                   | _ \<Rightarrow> None)
      | _ \<Rightarrow> None)"

section \<open>Basic facts about the store\<close>

lemma updL_fields:
  "layers (updL l f \<sigma>) = (layers \<sigma>)(l := f (layers \<sigma> l))"
  "trace (updL l f \<sigma>) = trace \<sigma>"
  "ext (updL l f \<sigma>) = ext \<sigma>"
  "extTrans (updL l f \<sigma>) = extTrans \<sigma>"
  "saveActs (updL l f \<sigma>) = saveActs \<sigma>"
  "saveActGrads (updL l f \<sigma>) = saveActGrads \<sigma>"
  by (simp_all add: updL_def)

lemma emit_fields:
  "layers (emit e \<sigma>) = layers \<sigma>"
  "trace (emit e \<sigma>) = trace \<sigma> @ [e]"
  "ext (emit e \<sigma>) = ext \<sigma>"
  "extTrans (emit e \<sigma>) = extTrans \<sigma>"
  "saveActs (emit e \<sigma>) = saveActs \<sigma>"
  "saveActGrads (emit e \<sigma>) = saveActGrads \<sigma>"
  by (simp_all add: emit_def)

lemmas store_simps = updL_fields emit_fields

lemmas ctor_defs = Layer_ctor_def FCLayer_ctor_def ConvLayer_ctor_def SoftmaxLayer_ctor_def
  DataLayer_ctor_def CostLayer_ctor_def LogregCostLayer_ctor_def ResponseNormLayer_ctor_def
  ContrastNormLayer_ctor_def PoolLayer_ctor_def makeCostLayer_def

lemmas graph_defs = addEdge_def addNext_def addPrev_def reset_def isGradProducer_def
  isGradConsumer_def getPrev_def getNext_def getType_def getRcvdBInputs_def getRcvdFInputs_def
  incRcvdBInputs_def

text \<open>The definitions that evaluate the model on \<open>exNet\<close>.\<close>

lemmas exNet_defs = exNet_def store0_def blank_def toyBackend_def Let_def ctor_defs graph_defs
  updL_def emit_def

section \<open>Graph assembly\<close>

text \<open>
  Claim C8. Adding the edge from \<open>a\<close> to \<open>b\<close> (the calls \<^verbatim>\<open>a->addNext(b)\<close> and
  \<^verbatim>\<open>b->addPrev(a)\<close>) appends \<open>b\<close> to the successor list of \<open>a\<close>, appends \<open>a\<close> to the
  predecessor list of \<open>b\<close>, and adds to the gradient-producing-successor count of \<open>a\<close>
  exactly 1 when \<open>b\<close> is a gradient producer and 0 otherwise. Nothing else changes: the
  predecessor list of \<open>a\<close> and the successor list and count of \<open>b\<close> change only when
  \<open>a = b\<close>, and every other layer is left as it was.
\<close>

theorem addEdge_updates_both_endpoints:
  "next (layers (addEdge a b \<sigma>) a) = next (layers \<sigma> a) @ [b]
   \<and> prev (layers (addEdge a b \<sigma>) b) = prev (layers \<sigma> b) @ [a]
   \<and> numGradProducersNext (layers (addEdge a b \<sigma>) a)
       = numGradProducersNext (layers \<sigma> a) + (if isGradProducer \<sigma> b then 1 else 0)
   \<and> (\<forall>l. l \<noteq> a \<and> l \<noteq> b \<longrightarrow> layers (addEdge a b \<sigma>) l = layers \<sigma> l)
   \<and> (a \<noteq> b \<longrightarrow> prev (layers (addEdge a b \<sigma>) a) = prev (layers \<sigma> a)
                \<and> next (layers (addEdge a b \<sigma>) b) = next (layers \<sigma> b)
                \<and> numGradProducersNext (layers (addEdge a b \<sigma>) b)
                    = numGradProducersNext (layers \<sigma> b))"
  by (simp add: addEdge_def addNext_def addPrev_def isGradProducer_def store_simps)

theorem addEdge_updates_both_endpoints_witness:
  "next (layers (addEdge 2 3 (exNet 1)) 2) = [3, 3]
   \<and> prev (layers (addEdge 2 3 (exNet 1)) 3) = [2, 2]
   \<and> numGradProducersNext (layers (addEdge 2 3 (exNet 1)) 2) = 2
   \<and> prev (layers (addEdge 2 3 (exNet 1)) 2) = [1]"
proof -
  have "next (layers (exNet 1) 2) = [3]" "prev (layers (exNet 1) 3) = [2]"
    "numGradProducersNext (layers (exNet 1) 2) = 1" "isGradProducer (exNet 1) 3"
    "prev (layers (exNet 1) 2) = [1]"
    by (simp_all add: exNet_defs)
  with addEdge_updates_both_endpoints [of 2 3 "exNet 1"] show ?thesis by simp
qed


section \<open>The data layer\<close>

text \<open>
  Claim C7. \<^verbatim>\<open>fprop(passType)\<close> on a data layer, for every pass type, throws ("No
  data given") and the store is as it was before the call.
\<close>

theorem DataLayer_fprop_throws:
  "kind (layers \<sigma> l) = DataLayer \<Longrightarrow> fprop B (Suc n) l p \<sigma> = Raised NoDataGiven \<sigma>"
  by simp

theorem DataLayer_fprop_throws_witness:
  "kind (layers (exNet 1) 1) = DataLayer
   \<and> fprop toyBackend (Suc 0) 1 PASS_GC (exNet 1) = Raised NoDataGiven (exNet 1)"
proof -
  have k: "kind (layers (exNet 1) 1) = DataLayer" by (simp add: exNet_defs)
  from k DataLayer_fprop_throws [OF k] show ?thesis by simp
qed

text \<open>
  Claim C10. The list-based forward entry of the base class fails its assertion when
  the size of the supplied list differs from the number of predecessors. The override of
  the data layer makes no such check: whatever the number of predecessors, it selects
  \<^verbatim>\<open>data[_dataIdx]\<close> and goes on to the successors when the index is inside the list,
  and the selection is out of range (undefined behaviour in the source) when the size of
  the list is not strictly greater than the index.
\<close>

theorem fprop_v_input_list_check:
  "(kind (layers \<sigma> l) \<noteq> DataLayer \<and> length v \<noteq> length (prev (layers \<sigma> l)) \<longrightarrow>
      fprop_v B n l v p \<sigma> = Raised AssertionFailed \<sigma>)
   \<and> (kind (layers \<sigma> l) = DataLayer \<and> 0 \<le> dataIdx (layers \<sigma> l)
        \<and> dataIdx (layers \<sigma> l) < int (length v) \<longrightarrow>
      fprop_v B n l v p \<sigma> =
        fpropNext B n (next (layers \<sigma> l)) p
          (updL l (\<lambda>x. x\<lparr>acts := deref \<sigma> (v ! nat (dataIdx (layers \<sigma> l))),
                         actsTrans := refTrans \<sigma> (v ! nat (dataIdx (layers \<sigma> l))),
                         actsView := True\<rparr>)
             (emit (EvFpropActs l) \<sigma>)))
   \<and> (kind (layers \<sigma> l) = DataLayer \<and> int (length v) \<le> dataIdx (layers \<sigma> l) \<longrightarrow>
      fprop_v B n l v p \<sigma> = Raised IndexOutOfRange (emit (EvFpropActs l) \<sigma>))"
proof -
  have d: "deref (emit e \<sigma>) r = deref \<sigma> r" "refTrans (emit e \<sigma>) r = refTrans \<sigma> r" for e r
    by (cases r; simp add: store_simps)+
  show ?thesis
    by (simp add: fprop_v_def fpropActs_def DataLayer_fpropActs_def Layer_fprop_body_def
        Let_def d store_simps)
qed

theorem fprop_v_input_list_check_witness:
  "fprop_v toyBackend 0 2 [Ext 0, Ext 1] PASS_TRAIN (exNet 1) = Raised AssertionFailed (exNet 1)
   \<and> fprop_v toyBackend 0 0 [Ext 0, Ext 1] PASS_TRAIN (exNet 1) =
       fpropNext toyBackend 0 [4] PASS_TRAIN
         (updL 0 (\<lambda>x. x\<lparr>acts := 1, actsTrans := False, actsView := True\<rparr>)
            (emit (EvFpropActs 0) (exNet 1)))
   \<and> fprop_v toyBackend 0 0 [Ext 0] PASS_TRAIN (exNet 1) =
       Raised IndexOutOfRange (emit (EvFpropActs 0) (exNet 1))"
proof -
  have "kind (layers (exNet 1) 2) \<noteq> DataLayer" "prev (layers (exNet 1) 2) = [1]"
    "kind (layers (exNet 1) 0) = DataLayer" "dataIdx (layers (exNet 1) 0) = 1"
    "next (layers (exNet 1) 0) = [4]" "prev (layers (exNet 1) 0) = []"
    "deref (exNet 1) (Ext 1) = 1" "refTrans (exNet 1) (Ext 1) = False"
    by (simp_all add: exNet_defs)
  with fprop_v_input_list_check [of "exNet 1" 2 "[Ext 0, Ext 1]" toyBackend 0 PASS_TRAIN]
    fprop_v_input_list_check [of "exNet 1" 0 "[Ext 0, Ext 1]" toyBackend 0 PASS_TRAIN]
    fprop_v_input_list_check [of "exNet 1" 0 "[Ext 0]" toyBackend 0 PASS_TRAIN]
  show ?thesis by simp
qed


section \<open>The weight gradient of the fully-connected layer\<close>

lemma deref_updL_weights:
  "deref (updL l (\<lambda>x. x\<lparr>weights := ws\<rparr>) \<sigma>) r = deref \<sigma> r"
  by (cases r) (simp_all add: store_simps)

lemma updL_updL_weights:
  "updL l (\<lambda>x. x\<lparr>weights := a\<rparr>) (updL l (\<lambda>x. x\<lparr>weights := b\<rparr>) \<sigma>) = updL l (\<lambda>x. x\<lparr>weights := a\<rparr>) \<sigma>"
  by (simp add: updL_def)

lemma FCLayer_bpropWeights_loop_result:
  assumes "\<forall>i\<in>set is. i < length ws" and "distinct is" and "weights (layers \<sigma> l) = ws"
  shows "\<exists>ws'. length ws' = length ws
      \<and> FCLayer_bpropWeights_loop B l v p is \<sigma> = Done (updL l (\<lambda>x. x\<lparr>weights := ws'\<rparr>) \<sigma>)
      \<and> (\<forall>i<length ws. ws' ! i =
            (if i \<in> set is
             then (ws ! i)\<lparr>getInc := fcInc B p (acts (layers \<sigma> (prev (layers \<sigma> l) ! i))) (deref \<sigma> v) (ws ! i)\<rparr>
             else ws ! i))"
  using assms
proof (induction "is" arbitrary: \<sigma> ws)
  case Nil
  have "updL l (\<lambda>x. x\<lparr>weights := ws\<rparr>) \<sigma> = \<sigma>"
    using Nil(3) [symmetric] by (simp add: updL_def)
  then show ?case by (intro exI [of _ ws]) simp
next
  case (Cons i "is")
  let ?w' = "(ws ! i)\<lparr>getInc := fcInc B p (acts (layers \<sigma> (prev (layers \<sigma> l) ! i))) (deref \<sigma> v) (ws ! i)\<rparr>"
  let ?\<sigma>1 = "updL l (\<lambda>x. x\<lparr>weights := ws[i := ?w']\<rparr>) \<sigma>"
  have step: "FCLayer_bpropWeights_loop B l v p (i # is) \<sigma> = FCLayer_bpropWeights_loop B l v p is ?\<sigma>1"
    using Cons.prems by (simp add: Let_def fcInc_def updL_def)
  have w1: "weights (layers ?\<sigma>1 l) = ws[i := ?w']" by (simp add: store_simps)
  from Cons.prems have a: "\<forall>j\<in>set is. j < length (ws[i := ?w'])" "distinct is" by simp_all
  from Cons.IH [OF a w1] obtain ws' where
    len: "length ws' = length ws"
    and res: "FCLayer_bpropWeights_loop B l v p is ?\<sigma>1 = Done (updL l (\<lambda>x. x\<lparr>weights := ws'\<rparr>) ?\<sigma>1)"
    and el: "\<forall>j<length ws. ws' ! j =
            (if j \<in> set is
             then (ws[i := ?w'] ! j)\<lparr>getInc := fcInc B p (acts (layers ?\<sigma>1 (prev (layers ?\<sigma>1 l) ! j))) (deref ?\<sigma>1 v) (ws[i := ?w'] ! j)\<rparr>
             else ws[i := ?w'] ! j)"
    by auto
  have rd: "acts (layers ?\<sigma>1 x) = acts (layers \<sigma> x)" "prev (layers ?\<sigma>1 x) = prev (layers \<sigma> x)" for x
    by (simp_all add: store_simps)
  from Cons.prems have ni: "i \<notin> set is" "i < length ws" by simp_all
  show ?case
  proof (intro exI [of _ ws'] conjI allI impI)
    show "length ws' = length ws" by (rule len)
    show "FCLayer_bpropWeights_loop B l v p (i # is) \<sigma> = Done (updL l (\<lambda>x. x\<lparr>weights := ws'\<rparr>) \<sigma>)"
      by (simp only: step res updL_updL_weights)
  next
    fix j assume j: "j < length ws"
    with el have "ws' ! j =
            (if j \<in> set is
             then (ws[i := ?w'] ! j)\<lparr>getInc := fcInc B p (acts (layers \<sigma> (prev (layers \<sigma> l) ! j))) (deref \<sigma> v) (ws[i := ?w'] ! j)\<rparr>
             else ws[i := ?w'] ! j)"
      by (simp add: rd deref_updL_weights)
    with ni j show "ws' ! j =
            (if j \<in> set (i # is)
             then (ws ! j)\<lparr>getInc := fcInc B p (acts (layers \<sigma> (prev (layers \<sigma> l) ! j))) (deref \<sigma> v) (ws ! j)\<rparr>
             else ws ! j)"
      by (cases "j = i") auto
  qed
qed


text \<open>
  Claim C5. \<^verbatim>\<open>FCLayer::bpropWeights\<close> on a fully-connected layer that has a weight
  group for every predecessor returns normally; for each predecessor index \<open>i\<close> the new
  increment of weight group \<open>i\<close> is \<open>momentum\<^sub>i * increment\<^sub>i + (learningRate\<^sub>i / batchSize) *
  (transpose of the activations of predecessor i, times the incoming gradient)\<close>, with
  \<open>batchSize\<close> the number of rows of the incoming gradient; in a gradient-verification
  pass the first factor is 0 and the second is 1; the gradient of the biases is
  \<^verbatim>\<open>v.sum(0, ...)\<close> of the incoming gradient, which the specification reads as its column
  sum. The quotient is a \<^verbatim>\<open>float\<close> division in the source: with zero rows it is
  infinite or not a number, which the reals do not model, hence the last assumption.
\<close>

theorem FCLayer_bpropWeights_formula:
  fixes B :: "('m::real_vector) backend"
  assumes "productAccumulate B"
    and "kind (layers \<sigma> l) = FCLayer"
    and "length (prev (layers \<sigma> l)) \<le> length (weights (layers \<sigma> l))"
    and "p = PASS_GC \<or> getNumRows B (deref \<sigma> v) \<noteq> 0"
  shows "\<exists>\<sigma>'. bpropWeights B l v p \<sigma> = Done \<sigma>'
     \<and> getGrads (biases (layers \<sigma>' l)) = sumAxis B 0 (deref \<sigma> v)
     \<and> (\<forall>i<length (prev (layers \<sigma> l)).
          getInc (weights (layers \<sigma>' l) ! i) =
            (if p = PASS_GC then 0 else getMom (weights (layers \<sigma> l) ! i))
               *\<^sub>R getInc (weights (layers \<sigma> l) ! i)
            + (if p = PASS_GC then 1
               else getEps (weights (layers \<sigma> l) ! i) / real_of_int (getNumRows B (deref \<sigma> v)))
               *\<^sub>R rightMult B (getTranspose B (acts (layers \<sigma> (prev (layers \<sigma> l) ! i))))
                     (deref \<sigma> v))"
proof -
  let ?ws = "weights (layers \<sigma> l)"
  let ?\<sigma>b = "updL l (\<lambda>x. x\<lparr>biases := (biases x)\<lparr>getGrads := sumAxis B 0 (deref \<sigma> v)\<rparr>\<rparr>) \<sigma>"
  have rd: "acts (layers ?\<sigma>b x) = acts (layers \<sigma> x)" "prev (layers ?\<sigma>b x) = prev (layers \<sigma> x)"
    "weights (layers ?\<sigma>b x) = weights (layers \<sigma> x)" for x
    by (simp_all add: store_simps)
  have dv: "deref ?\<sigma>b v = deref \<sigma> v" by (cases v) (simp_all add: store_simps)
  have a: "\<forall>i\<in>set [0..<length (prev (layers \<sigma> l))]. i < length ?ws" using assms(3) by auto
  from FCLayer_bpropWeights_loop_result [OF a distinct_upt rd(3), of B v p]
  obtain ws' where len: "length ws' = length ?ws"
    and res: "FCLayer_bpropWeights_loop B l v p [0..<length (prev (layers \<sigma> l))] ?\<sigma>b
              = Done (updL l (\<lambda>x. x\<lparr>weights := ws'\<rparr>) ?\<sigma>b)"
    and el: "\<forall>i<length ?ws. ws' ! i =
            (if i \<in> set [0..<length (prev (layers \<sigma> l))]
             then (?ws ! i)\<lparr>getInc := fcInc B p (acts (layers ?\<sigma>b (prev (layers ?\<sigma>b l) ! i)))
                                       (deref ?\<sigma>b v) (?ws ! i)\<rparr>
             else ?ws ! i)"
    by blast
  let ?\<sigma>' = "updL l (\<lambda>x. x\<lparr>weights := ws'\<rparr>) ?\<sigma>b"
  have "bpropWeights B l v p \<sigma> = Done ?\<sigma>'"
    using assms(2) res by (simp add: bpropWeights_def FCLayer_bpropWeights_def)
  moreover have "getGrads (biases (layers ?\<sigma>' l)) = sumAxis B 0 (deref \<sigma> v)"
    by (simp add: store_simps)
  moreover have "getInc (weights (layers ?\<sigma>' l) ! i) =
            (if p = PASS_GC then 0 else getMom (?ws ! i)) *\<^sub>R getInc (?ws ! i)
            + (if p = PASS_GC then 1 else getEps (?ws ! i) / real_of_int (getNumRows B (deref \<sigma> v)))
               *\<^sub>R rightMult B (getTranspose B (acts (layers \<sigma> (prev (layers \<sigma> l) ! i)))) (deref \<sigma> v)"
    if "i < length (prev (layers \<sigma> l))" for i
  proof -
    from that assms(3) have "i < length ?ws" by simp
    with el that have "ws' ! i = (?ws ! i)\<lparr>getInc := fcInc B p (acts (layers \<sigma> (prev (layers \<sigma> l) ! i)))
                                       (deref \<sigma> v) (?ws ! i)\<rparr>"
      by (simp add: rd dv)
    then show ?thesis
      using assms(1) by (simp add: store_simps fcInc_def productAccumulate_def)
  qed
  ultimately show ?thesis by blast
qed

theorem FCLayer_bpropWeights_formula_witness:
  "productAccumulate toyBackend \<and> kind (layers wNet 2) = FCLayer
   \<and> (\<exists>\<sigma>'. bpropWeights toyBackend 2 (ActGradsOf 2) PASS_TRAIN wNet = Done \<sigma>'
         \<and> getGrads (biases (layers \<sigma>' 2)) = 5
         \<and> getInc (weights (layers \<sigma>' 2) ! 0) = 17)"
proof -
  have h: "productAccumulate toyBackend" "kind (layers wNet 2) = FCLayer"
    "length (prev (layers wNet 2)) \<le> length (weights (layers wNet 2))"
    "PASS_TRAIN = PASS_GC \<or> getNumRows toyBackend (deref wNet (ActGradsOf 2)) \<noteq> 0"
    by (simp_all add: productAccumulate_def wNet_def exNet_defs)
  have v: "prev (layers wNet 2) = [Suc 0]" "actGrads (layers wNet 2) = 5"
    "acts (layers wNet (Suc 0)) = 3"
    "getMom (weights (layers wNet 2) ! 0) = 1 / 2" "getInc (weights (layers wNet 2) ! 0) = 4"
    "getEps (weights (layers wNet 2) ! 0) = 1"
    by (simp_all add: wNet_def exNet_defs)
  from FCLayer_bpropWeights_formula [OF h] obtain \<sigma>' where
    "bpropWeights toyBackend 2 (ActGradsOf 2) PASS_TRAIN wNet = Done \<sigma>'"
    "getGrads (biases (layers \<sigma>' 2)) = sumAxis toyBackend 0 (deref wNet (ActGradsOf 2))"
    "getInc (weights (layers \<sigma>' 2) ! 0) =
       (if PASS_TRAIN = PASS_GC then 0 else getMom (weights (layers wNet 2) ! 0))
          *\<^sub>R getInc (weights (layers wNet 2) ! 0)
       + (if PASS_TRAIN = PASS_GC then 1
          else getEps (weights (layers wNet 2) ! 0)
               / real_of_int (getNumRows toyBackend (deref wNet (ActGradsOf 2))))
          *\<^sub>R rightMult toyBackend (getTranspose toyBackend (acts (layers wNet (prev (layers wNet 2) ! 0))))
                (deref wNet (ActGradsOf 2))"
    by (auto simp: v)
  moreover have "sumAxis toyBackend ax m = m" "getNumRows toyBackend m = 1"
    "rightMult toyBackend a b = a * b" "getTranspose toyBackend m = m" for ax m a b
    by (simp_all add: toyBackend_def)
  ultimately show ?thesis using h by (intro conjI exI [of _ \<sigma>']) (simp_all add: v)
qed


section \<open>The softmax layer and the logistic-regression cost layer\<close>

text \<open>
  Claim C9. When \<^verbatim>\<open>SoftmaxLayer::bpropActs\<close> takes the fused branch and returns, the
  labels operand of the fused kernel is the activation buffer of the first predecessor
  of the cost successor (\<^verbatim>\<open>_next[0]->getPrev()[0]\<close>); the other operands are the
  softmax layer's own output, the target buffer with the counter of the target layer,
  and the coefficient of the cost layer; no activation of a predecessor of the softmax
  layer is an operand. So the labels operand is the labels layer's activations when the
  predecessor list of the cost layer is (labels, softmax), and it is the softmax layer's
  own output when the list is (softmax, labels).
\<close>

theorem fused_gradient_labels:
  assumes "kind (layers \<sigma> l) = SoftmaxLayer" and "doLogregGrad \<sigma> l"
    and "bpropActs B l v i p \<sigma> = Done \<sigma>'"
  shows "let c = next (layers \<sigma> l) ! 0;
             q = prev (layers \<sigma> l) ! i;
             labels = acts (layers \<sigma> (prev (layers \<sigma> c) ! 0));
             k = (\<lambda>add. computeLogregSoftmaxGrads B labels (acts (layers \<sigma> l))
                          (actGrads (layers \<sigma> q)) add (coeff (layers \<sigma> c)))
         in \<sigma>' = emit (EvGrad K_computeLogregSoftmaxGrads l i q (k False))
                   (updL q (\<lambda>x. x\<lparr>actGrads := k (0 < rcvdBInputs (layers \<sigma> q))\<rparr>) \<sigma>)
            \<and> prev (layers \<sigma> c) \<noteq> []
            \<and> (\<forall>lab. prev (layers \<sigma> c) = [lab, l] \<longrightarrow> labels = acts (layers \<sigma> lab))
            \<and> (\<forall>lab. prev (layers \<sigma> c) = [l, lab] \<longrightarrow> labels = acts (layers \<sigma> l))"
  using assms
  by (auto simp: bpropActs_def SoftmaxLayer_bpropActs_def Let_def graph_defs split: if_splits)

theorem fused_gradient_labels_witness:
  "kind (layers fNet 3) = SoftmaxLayer \<and> doLogregGrad fNet 3
   \<and> prev (layers fNet 4) = [0, 3]
   \<and> bpropActs toyBackend 3 (ActGradsOf 3) 0 PASS_TRAIN fNet =
       Done (emit (EvGrad K_computeLogregSoftmaxGrads 3 0 2 (- 3 / 2))
              (updL 2 (\<lambda>x. x\<lparr>actGrads := - 3 / 2\<rparr>) fNet))"
proof -
  have h: "kind (layers fNet 3) = SoftmaxLayer" "doLogregGrad fNet 3"
    by (simp_all add: fNet_def doLogregGrad_def exNet_defs)
  have r: "bpropActs toyBackend 3 (ActGradsOf 3) 0 PASS_TRAIN fNet =
       Done (emit (EvGrad K_computeLogregSoftmaxGrads 3 0 2 (- 3 / 2))
              (updL 2 (\<lambda>x. x\<lparr>actGrads := - 3 / 2\<rparr>) fNet))"
    by (simp add: fNet_def bpropActs_def SoftmaxLayer_bpropActs_def doLogregGrad_def exNet_defs)
  have "prev (layers fNet 4) = [0, 3]" by (simp add: fNet_def exNet_defs)
  with h r fused_gradient_labels [OF h r] show ?thesis by simp
qed

lemma gradEvents_append [simp]:
  "gradEvents k s (tr @ tr') = gradEvents k s tr @ gradEvents k s tr'"
  by (simp add: gradEvents_def)


text \<open>
  Claim C4, as amended. \<^verbatim>\<open>SoftmaxLayer::bpropActs\<close>, when it returns, has run the fused
  kernel exactly when the softmax layer has exactly one successor and the type tag of
  that successor is "cost.logreg" (so never with two or more successors).
  \<^verbatim>\<open>LogregCostLayer::bpropActs\<close> runs its own gradient kernel exactly when its test
  \<open>doWork\<close> holds. For a layer with type tag "softmax" that is predecessor \<open>i\<close> of a
  layer with type tag "cost.logreg" which is among its successors, exactly one of the
  two tests holds: when both input-gradient steps run for the edge, exactly one of them
  does the chain-rule arithmetic. (Whether they run is another matter: with coefficient
  0 the backward step of the cost layer does nothing, and neither runs.)
\<close>

theorem softmax_logreg_path_selection:
  "(kind (layers \<sigma> s) = SoftmaxLayer \<and> bpropActs B s v j p \<sigma> = Done \<sigma>' \<longrightarrow>
      (gradEvents K_computeLogregSoftmaxGrads s (trace \<sigma>')
         \<noteq> gradEvents K_computeLogregSoftmaxGrads s (trace \<sigma>))
      = (length (next (layers \<sigma> s)) = 1
         \<and> type (layers \<sigma> (next (layers \<sigma> s) ! 0)) = ''cost.logreg''))
   \<and> (kind (layers \<sigma> c) = LogregCostLayer \<and> i < length (prev (layers \<sigma> c)) \<longrightarrow>
      (\<exists>\<sigma>''. bpropActs B c v' i p' \<sigma> = Done \<sigma>''
         \<and> (gradEvents K_computeLogregGrads c (trace \<sigma>'')
               \<noteq> gradEvents K_computeLogregGrads c (trace \<sigma>))
             = doWork \<sigma> c i))
   \<and> (type (layers \<sigma> s) = ''softmax'' \<and> type (layers \<sigma> c) = ''cost.logreg''
       \<and> c \<in> set (next (layers \<sigma> s)) \<and> prev (layers \<sigma> c) ! i = s \<longrightarrow>
      doLogregGrad \<sigma> s \<noteq> doWork \<sigma> c i)"
proof (intro conjI impI)
  assume "kind (layers \<sigma> s) = SoftmaxLayer \<and> bpropActs B s v j p \<sigma> = Done \<sigma>'"
  then show "(gradEvents K_computeLogregSoftmaxGrads s (trace \<sigma>')
         \<noteq> gradEvents K_computeLogregSoftmaxGrads s (trace \<sigma>))
      = (length (next (layers \<sigma> s)) = 1
         \<and> type (layers \<sigma> (next (layers \<sigma> s) ! 0)) = ''cost.logreg'')"
    by (auto simp: bpropActs_def SoftmaxLayer_bpropActs_def Let_def doLogregGrad_def getNext_def
        getType_def store_simps gradEvents_def split: if_splits)
next
  assume "kind (layers \<sigma> c) = LogregCostLayer \<and> i < length (prev (layers \<sigma> c))"
  then show "\<exists>\<sigma>''. bpropActs B c v' i p' \<sigma> = Done \<sigma>''
         \<and> (gradEvents K_computeLogregGrads c (trace \<sigma>'')
               \<noteq> gradEvents K_computeLogregGrads c (trace \<sigma>))
             = doWork \<sigma> c i"
    by (simp add: bpropActs_def LogregCostLayer_bpropActs_def Let_def store_simps gradEvents_def)
next
  assume a: "type (layers \<sigma> s) = ''softmax'' \<and> type (layers \<sigma> c) = ''cost.logreg''
       \<and> c \<in> set (next (layers \<sigma> s)) \<and> prev (layers \<sigma> c) ! i = s"
  show "doLogregGrad \<sigma> s \<noteq> doWork \<sigma> c i"
  proof (cases "length (next (layers \<sigma> s)) = 1")
    case True
    then obtain x where "next (layers \<sigma> s) = [x]" by (cases "next (layers \<sigma> s)") auto
    with a show ?thesis by (auto simp: doLogregGrad_def doWork_def graph_defs)
  next
    case False
    with a have "1 < length (next (layers \<sigma> s))"
      by (cases "next (layers \<sigma> s)") auto
    with a show ?thesis by (auto simp: doLogregGrad_def doWork_def graph_defs)
  qed
qed


text \<open>The claim as stated fails for a cost layer with coefficient 0: in the example
  network with coefficient 0 the softmax layer feeds the cost layer, the backward call
  on the cost layer returns with the store unchanged, and neither kernel has run.\<close>

theorem softmax_logreg_neither_counterexample:
  "kind (layers (exNet 0) 3) = SoftmaxLayer \<and> type (layers (exNet 0) 3) = ''softmax''
   \<and> kind (layers (exNet 0) 4) = LogregCostLayer \<and> type (layers (exNet 0) 4) = ''cost.logreg''
   \<and> next (layers (exNet 0) 3) = [4] \<and> prev (layers (exNet 0) 4) = [0, 3]
   \<and> bprop toyBackend (Suc (Suc (Suc (Suc 0)))) 4 PASS_TRAIN (exNet 0) = Done (exNet 0)
   \<and> gradEvents K_computeLogregSoftmaxGrads 3 (trace (exNet 0)) = []
   \<and> gradEvents K_computeLogregGrads 4 (trace (exNet 0)) = []"
  by (simp add: gradEvents_def exNet_defs)

theorem softmax_logreg_path_selection_witness:
  "doLogregGrad fNet 3 \<and> \<not> doWork fNet 4 1
   \<and> bpropActs toyBackend 4 (ActGradsOf 4) 1 PASS_TRAIN fNet = Done fNet"
proof -
  have h: "kind (layers fNet 4) = LogregCostLayer \<and> 1 < length (prev (layers fNet 4))"
    "type (layers fNet 3) = ''softmax'' \<and> type (layers fNet 4) = ''cost.logreg''
       \<and> 4 \<in> set (next (layers fNet 3)) \<and> prev (layers fNet 4) ! 1 = 3"
    "doLogregGrad fNet 3"
    "bpropActs toyBackend 4 (ActGradsOf 4) 1 PASS_TRAIN fNet = Done fNet"
    by (simp_all add: fNet_def doLogregGrad_def doWork_def bpropActs_def
        LogregCostLayer_bpropActs_def exNet_defs)
  with softmax_logreg_path_selection [of fNet 3 toyBackend "ActGradsOf 3" 0 PASS_TRAIN fNet 4 1
      "ActGradsOf 4" PASS_TRAIN]
  show ?thesis by simp
qed


section \<open>The forward protocol\<close>

lemma sameCtl_refl [simp]: "sameCtl \<sigma> \<sigma>"
  by (simp add: sameCtl_def)

lemma sameCtl_trans: "sameCtl \<sigma> \<sigma>' \<Longrightarrow> sameCtl \<sigma>' \<sigma>'' \<Longrightarrow> sameCtl \<sigma> \<sigma>''"
  by (simp add: sameCtl_def)

lemma sameCtl_emit [simp]: "sameCtl \<sigma> (emit e \<sigma>')  = sameCtl \<sigma> \<sigma>'"
  by (simp add: sameCtl_def store_simps)

lemma sameCtl_updL:
  "graph (f (layers \<sigma>' l)) = graph (layers \<sigma>' l) \<Longrightarrow>
   rcvdFInputs (f (layers \<sigma>' l)) = rcvdFInputs (layers \<sigma>' l) \<Longrightarrow>
   rcvdBInputs (f (layers \<sigma>' l)) = rcvdBInputs (layers \<sigma>' l) \<Longrightarrow>
   sameCtl \<sigma> (updL l f \<sigma>') = sameCtl \<sigma> \<sigma>'"
  by (auto simp: sameCtl_def store_simps)

lemma sameCtl_assign [simp]: "sameCtl \<sigma> (assign r m \<sigma>') = sameCtl \<sigma> \<sigma>'"
  by (cases r) (auto simp: sameCtl_def store_simps graph_def)

lemma sameCtl_transpose [simp]: "sameCtl \<sigma> (transpose b r \<sigma>') = sameCtl \<sigma> \<sigma>'"
  by (cases r) (auto simp: sameCtl_def store_simps graph_def)

lemma trace_assign [simp]: "trace (assign r m \<sigma>) = trace \<sigma>"
  by (cases r) (simp_all add: store_simps)

lemma trace_transpose [simp]: "trace (transpose b r \<sigma>) = trace \<sigma>"
  by (cases r) (simp_all add: store_simps)

lemma fold_transpose [simp]:
  "trace (fold (transpose b) v \<sigma>) = trace \<sigma>"
  "sameCtl \<sigma>0 (fold (transpose b) v \<sigma>) = sameCtl \<sigma>0 \<sigma>"
  by (induction v arbitrary: \<sigma>) simp_all

lemma FC_fold_frame:
  "trace (fold (\<lambda>i s. updL l (\<lambda>x. x\<lparr>acts := g i s x\<rparr>) s) is \<sigma>) = trace \<sigma>"
  "sameCtl \<sigma>0 (fold (\<lambda>i s. updL l (\<lambda>x. x\<lparr>acts := g i s x\<rparr>) s) is \<sigma>) = sameCtl \<sigma>0 \<sigma>"
  by (induction "is" arbitrary: \<sigma>) (simp_all add: store_simps sameCtl_updL graph_def)

lemmas fpropActs_defs = fpropActs_def FCLayer_fpropActs_def ConvLayer_fpropActs_def
  SoftmaxLayer_fpropActs_def DataLayer_fpropActs_def PoolLayer_fpropActs_def
  ResponseNormLayer_fpropActs_def ContrastNormLayer_fpropActs_def LogregCostLayer_fpropActs_def

lemma fpropActs_frame:
  assumes "final (fpropActs B l v p \<sigma>) = Some \<sigma>'"
  shows "trace \<sigma>' = trace \<sigma> @ [EvFpropActs l] \<and> sameCtl \<sigma> \<sigma>'"
proof (cases "kind (layers \<sigma> l)")
  case FCLayer
  with assms show ?thesis
    by (auto simp: fpropActs_def FCLayer_fpropActs_def Let_def store_simps sameCtl_updL graph_def
        FC_fold_frame split: if_splits)
next
  case ConvLayer
  with assms show ?thesis
    by (auto simp: fpropActs_def ConvLayer_fpropActs_def Let_def store_simps sameCtl_updL graph_def
        split: if_splits)
next
  case SoftmaxLayer
  with assms show ?thesis
    by (auto simp: fpropActs_def SoftmaxLayer_fpropActs_def Let_def store_simps sameCtl_updL
        graph_def split: if_splits)
next
  case DataLayer
  with assms show ?thesis
    by (auto simp: fpropActs_def DataLayer_fpropActs_def Let_def store_simps sameCtl_updL graph_def
        split: if_splits)
next
  case PoolLayer
  with assms show ?thesis
    by (auto simp: fpropActs_def PoolLayer_fpropActs_def Let_def store_simps sameCtl_updL graph_def
        split: if_splits)
next
  case ResponseNormLayer
  with assms show ?thesis
    by (auto simp: fpropActs_def ResponseNormLayer_fpropActs_def Let_def store_simps sameCtl_updL
        graph_def split: if_splits)
next
  case ContrastNormLayer
  with assms show ?thesis
    by (auto simp: fpropActs_def ContrastNormLayer_fpropActs_def Let_def store_simps sameCtl_updL
        graph_def split: if_splits)
next
  case LogregCostLayer
  with assms show ?thesis
    by (auto simp: fpropActs_def LogregCostLayer_fpropActs_def Let_def store_simps sameCtl_updL
        graph_def split: if_splits)
qed

lemma fwdEvents_append [simp]: "fwdEvents t (tr @ tr') = fwdEvents t tr @ fwdEvents t tr'"
  by (simp add: fwdEvents_def)

lemma fwdEvents_simps [simp]:
  "fwdEvents t [] = []"
  "fwdEvents t (EvFprop l # tr) = (if l = t then EvFprop t # fwdEvents t tr else fwdEvents t tr)"
  "fwdEvents t (EvFpropActs l # tr) = (if l = t then EvFpropActs t # fwdEvents t tr else fwdEvents t tr)"
  "fwdEvents t (EvBprop l # tr) = fwdEvents t tr"
  "fwdEvents t (EvBpropCommon l m # tr) = fwdEvents t tr"
  "fwdEvents t (EvGrad k s i q m # tr) = fwdEvents t tr"
  "fwdEvents t (EvBpropWeights l # tr) = fwdEvents t tr"
  by (auto simp: fwdEvents_def)

lemma fwdPattern_call:
  "c + 1 \<noteq> N \<Longrightarrow> fwdPattern t N (c + 1) = fwdPattern t N c @ [EvFprop t]"
  by (auto simp: fwdPattern_def min_def replicate_append_same Suc_diff_le)

lemma fwdPattern_fire:
  "c + 1 = N \<Longrightarrow> fwdPattern t N N = fwdPattern t N c @ [EvFprop t, EvFpropActs t]"
  by (auto simp: fwdPattern_def min_def replicate_append_same)

lemma Layer_fprop_body_frame:
  assumes "final (Layer_fprop_body B l v p \<sigma>) = Some \<sigma>'"
  shows "(\<sigma>' = \<sigma> \<and> length v \<noteq> length (prev (layers \<sigma> l)))
       \<or> (length v = length (prev (layers \<sigma> l)) \<and> trace \<sigma>' = trace \<sigma> @ [EvFpropActs l]
          \<and> sameCtl (updL l (\<lambda>x. x\<lparr>rcvdFInputs := int (length (prev x))\<rparr>) \<sigma>) \<sigma>')"
proof (cases "length v = length (prev (layers \<sigma> l))")
  case False
  with assms show ?thesis by (simp add: Layer_fprop_body_def)
next
  case True
  let ?\<sigma>1 = "updL l (\<lambda>x. x\<lparr>rcvdFInputs := int (length (prev x))\<rparr>) \<sigma>"
  let ?\<sigma>3 = "transpose (transL (layers \<sigma> l)) (ActsOf l) (fold (transpose (transL (layers \<sigma> l))) v ?\<sigma>1)"
  from assms True have "final (fpropActs B l v p ?\<sigma>3) = Some \<sigma>'"
    by (simp add: Layer_fprop_body_def Let_def)
  from fpropActs_frame [OF this]
  have "trace \<sigma>' = trace ?\<sigma>3 @ [EvFpropActs l]" "sameCtl ?\<sigma>3 \<sigma>'" by simp_all
  moreover have "sameCtl ?\<sigma>1 ?\<sigma>3" "trace ?\<sigma>3 = trace \<sigma>"
    by (simp_all add: store_simps del: transpose.simps)
  ultimately show ?thesis using True by (auto intro: sameCtl_trans)
qed

lemma FInv_frame:
  assumes "FInv t N base \<sigma>"
    and "graph (layers \<sigma>' t) = graph (layers \<sigma> t)"
    and "rcvdFInputs (layers \<sigma>' t) = rcvdFInputs (layers \<sigma> t)"
    and "fwdEvents t (trace \<sigma>') = fwdEvents t (trace \<sigma>)"
  shows "FInv t N base \<sigma>'"
  using assms by (simp add: FInv_def graph_def)

lemma fprop_step_FInv:
  fixes B :: "'m backend"
  assumes inv: "FInv t N base \<sigma>" and nd: "kind (layers \<sigma> l) \<noteq> DataLayer"
    and fin: "final (fprop B (Suc n) l p \<sigma>) = Some \<sigma>'"
    and IH: "\<And>ls \<sigma> \<sigma>'. final (fpropNext B n ls p \<sigma>) = Some \<sigma>' \<Longrightarrow> FInv t N base \<sigma> \<Longrightarrow> FInv t N base \<sigma>'"
  shows "FInv t N base \<sigma>'"
proof -
  let ?\<sigma>1 = "updL l (\<lambda>x. x\<lparr>rcvdFInputs := rcvdFInputs x + 1\<rparr>) (emit (EvFprop l) \<sigma>)"
  let ?c = "nat (rcvdFInputs (layers \<sigma> t))"
  from inv have c0: "0 \<le> rcvdFInputs (layers \<sigma> t)" and Nt: "length (prev (layers \<sigma> t)) = N"
    and ev: "fwdEvents t (trace \<sigma>) = base @ fwdPattern t N ?c"
    and kt: "kind (layers \<sigma> t) \<noteq> DataLayer"
    by (simp_all add: FInv_def)
  show ?thesis
  proof (cases "rcvdFInputs (layers ?\<sigma>1 l) = int (length (prev (layers ?\<sigma>1 l)))")
    case False
    with fin nd have s': "\<sigma>' = ?\<sigma>1" by (simp add: Let_def)
    show ?thesis
    proof (cases "l = t")
      case True
      with False Nt c0 have "?c + 1 \<noteq> N" by (auto simp: store_simps)
      then have "(fwdPattern t N (Suc ?c) :: 'm event list) = fwdPattern t N ?c @ [EvFprop t]"
        using fwdPattern_call [of ?c N t] by simp
      with True c0 ev kt Nt show ?thesis
        by (simp add: s' FInv_def store_simps nat_add_distrib)
    next
      case False
      with inv show ?thesis by (simp add: s' FInv_def store_simps)
    qed
  next
    case fire: True
    let ?r = "Layer_fprop_body B l (map ActsOf (prev (layers ?\<sigma>1 l))) p ?\<sigma>1"
    have "\<exists>\<sigma>2. final ?r = Some \<sigma>2 \<and> FInv t N base \<sigma>2
            \<and> (\<sigma>' = \<sigma>2 \<or> final (fpropNext B n (next (layers \<sigma>2 l)) p \<sigma>2) = Some \<sigma>')"
    proof (cases ?r)
      case OutOfFuel
      with fin nd fire show ?thesis by (simp add: Let_def)
    next
      case (Done \<sigma>2)
      with fin nd fire have nx: "final (fpropNext B n (next (layers \<sigma>2 l)) p \<sigma>2) = Some \<sigma>'"
        by (simp add: Let_def)
      from Done have f2: "final ?r = Some \<sigma>2" by simp
      from Layer_fprop_body_frame [OF f2]
      have fr: "trace \<sigma>2 = trace ?\<sigma>1 @ [EvFpropActs l]"
        "sameCtl (updL l (\<lambda>x. x\<lparr>rcvdFInputs := int (length (prev x))\<rparr>) ?\<sigma>1) \<sigma>2"
        by simp_all
      have "FInv t N base \<sigma>2"
      proof (cases "l = t")
        case True
        with fire Nt c0 have cN: "?c + 1 = N" by (auto simp: store_simps)
        from fr(2) True Nt have "rcvdFInputs (layers \<sigma>2 t) = int N"
          "graph (layers \<sigma>2 t) = graph (layers \<sigma> t)"
          by (simp_all add: sameCtl_def store_simps graph_def)
        moreover from cN
        have "(fwdPattern t N N :: 'm event list) = fwdPattern t N ?c @ [EvFprop t, EvFpropActs t]"
          by (rule fwdPattern_fire)
        ultimately show ?thesis using True ev kt Nt fr(1)
          by (simp add: FInv_def store_simps graph_def)
      next
        case False
        with fr inv show ?thesis
          by (intro FInv_frame [OF inv]) (simp_all add: sameCtl_def store_simps)
      qed
      with f2 nx show ?thesis by blast
    next
      case (Raised e \<sigma>2)
      with fin nd fire have s2: "\<sigma>' = \<sigma>2" by (simp add: Let_def)
      from Raised have f2: "final ?r = Some \<sigma>2" by simp
      from Layer_fprop_body_frame [OF f2]
      have fr: "trace \<sigma>2 = trace ?\<sigma>1 @ [EvFpropActs l]"
        "sameCtl (updL l (\<lambda>x. x\<lparr>rcvdFInputs := int (length (prev x))\<rparr>) ?\<sigma>1) \<sigma>2"
        by simp_all
      have "FInv t N base \<sigma>2"
      proof (cases "l = t")
        case True
        with fire Nt c0 have cN: "?c + 1 = N" by (auto simp: store_simps)
        from fr(2) True Nt have "rcvdFInputs (layers \<sigma>2 t) = int N"
          "graph (layers \<sigma>2 t) = graph (layers \<sigma> t)"
          by (simp_all add: sameCtl_def store_simps graph_def)
        moreover from cN
        have "(fwdPattern t N N :: 'm event list) = fwdPattern t N ?c @ [EvFprop t, EvFpropActs t]"
          by (rule fwdPattern_fire)
        ultimately show ?thesis using True ev kt Nt fr(1)
          by (simp add: FInv_def store_simps graph_def)
      next
        case False
        with fr inv show ?thesis
          by (intro FInv_frame [OF inv]) (simp_all add: sameCtl_def store_simps)
      qed
      with f2 s2 show ?thesis by blast
    qed
    then show ?thesis using IH by blast
  qed
qed

lemma fpropNext_FInv:
  assumes "\<And>l \<sigma> \<sigma>'. final (fprop B n l p \<sigma>) = Some \<sigma>' \<Longrightarrow> FInv t N base \<sigma> \<Longrightarrow> FInv t N base \<sigma>'"
  shows "final (fpropNext B n ls p \<sigma>) = Some \<sigma>' \<Longrightarrow> FInv t N base \<sigma> \<Longrightarrow> FInv t N base \<sigma>'"
proof (induction ls arbitrary: \<sigma>)
  case Nil
  then show ?case by simp
next
  case (Cons x xs)
  show ?case
  proof (cases "fprop B n x p \<sigma>")
    case (Done \<sigma>1)
    with Cons.prems assms [of x \<sigma> \<sigma>1] have "FInv t N base \<sigma>1"
      "final (fpropNext B n xs p \<sigma>1) = Some \<sigma>'" by simp_all
    then show ?thesis using Cons.IH by blast
  next
    case (Raised e \<sigma>1)
    with Cons.prems assms [of x \<sigma> \<sigma>1] show ?thesis by simp
  next
    case OutOfFuel
    with Cons.prems show ?thesis by simp
  qed
qed

lemma fprop_FInv:
  "final (fprop B n l p \<sigma>) = Some \<sigma>' \<Longrightarrow> FInv t N base \<sigma> \<Longrightarrow> FInv t N base \<sigma>'"
proof (induction n arbitrary: l \<sigma> \<sigma>')
  case 0
  then show ?case by simp
next
  case (Suc n)
  show ?case
  proof (cases "kind (layers \<sigma> l) = DataLayer")
    case True
    with Suc.prems show ?thesis by simp
  next
    case False
    from Suc.prems(2) False Suc.prems(1) show ?thesis
      by (rule fprop_step_FInv) (rule fpropNext_FInv [OF Suc.IH])
  qed
qed

lemma fpropNext_FInv':
  "final (fpropNext B n ls p \<sigma>) = Some \<sigma>' \<Longrightarrow> FInv t N base \<sigma> \<Longrightarrow> FInv t N base \<sigma>'"
  by (rule fpropNext_FInv [OF fprop_FInv])

lemma fprop_v_FInv:
  assumes "l \<noteq> t" and fin: "final (fprop_v B n l v p \<sigma>) = Some \<sigma>'" and inv: "FInv t N base \<sigma>"
  shows "FInv t N base \<sigma>'"
proof -
  let ?h = "if kind (layers \<sigma> l) = DataLayer then fpropActs B l v p \<sigma>
            else Layer_fprop_body B l v p \<sigma>"
  have hd: "FInv t N base \<sigma>2" if f2: "final ?h = Some \<sigma>2" for \<sigma>2
  proof (cases "kind (layers \<sigma> l) = DataLayer")
    case True
    with f2 fpropActs_frame [of B l v p \<sigma> \<sigma>2] assms(1) show ?thesis
      by (intro FInv_frame [OF inv]) (simp_all add: sameCtl_def)
  next
    case False
    with f2 Layer_fprop_body_frame [of B l v p \<sigma> \<sigma>2] assms(1) inv show ?thesis
      by (auto intro!: FInv_frame [OF inv] simp: sameCtl_def store_simps)
  qed
  show ?thesis
  proof (cases ?h)
    case (Done \<sigma>2)
    with fin have "final (fpropNext B n (next (layers \<sigma>2 l)) p \<sigma>2) = Some \<sigma>'"
      by (simp add: fprop_v_def)
    moreover from Done hd have "FInv t N base \<sigma>2" by simp
    ultimately show ?thesis by (rule fpropNext_FInv')
  next
    case (Raised e \<sigma>2)
    with fin hd show ?thesis by (simp add: fprop_v_def)
  next
    case OutOfFuel
    with fin show ?thesis by (simp add: fprop_v_def)
  qed
qed

lemma forwardRun_FInv:
  assumes "\<forall>l v. FpropV l v \<in> set calls \<longrightarrow> l \<noteq> t"
  shows "final (forwardRun B n p calls \<sigma>) = Some \<sigma>' \<Longrightarrow> FInv t N base \<sigma> \<Longrightarrow> FInv t N base \<sigma>'"
  using assms
proof (induction calls arbitrary: \<sigma>)
  case Nil
  then show ?case by simp
next
  case (Cons c cs)
  from Cons.prems(3) have tl: "\<forall>l v. FpropV l v \<in> set cs \<longrightarrow> l \<noteq> t" by simp
  show ?case
  proof (cases c)
    case (Fprop l)
    show ?thesis
    proof (cases "fprop B n l p \<sigma>")
      case (Done \<sigma>1)
      with Cons.prems Fprop fprop_FInv [of B n l p \<sigma> \<sigma>1 t N base]
      have "FInv t N base \<sigma>1" "final (forwardRun B n p cs \<sigma>1) = Some \<sigma>'" by simp_all
      then show ?thesis using Cons.IH [OF _ _ tl] by blast
    next
      case (Raised e \<sigma>1)
      with Cons.prems Fprop fprop_FInv [of B n l p \<sigma> \<sigma>1 t N base] show ?thesis by simp
    next
      case OutOfFuel
      with Cons.prems Fprop show ?thesis by simp
    qed
  next
    case (FpropV l v)
    with Cons.prems(3) have lt: "l \<noteq> t" by simp
    show ?thesis
    proof (cases "fprop_v B n l v p \<sigma>")
      case (Done \<sigma>1)
      with Cons.prems FpropV fprop_v_FInv [OF lt, of B n v p \<sigma> \<sigma>1 N base]
      have "FInv t N base \<sigma>1" "final (forwardRun B n p cs \<sigma>1) = Some \<sigma>'" by simp_all
      then show ?thesis using Cons.IH [OF _ _ tl] by blast
    next
      case (Raised e \<sigma>1)
      with Cons.prems FpropV fprop_v_FInv [OF lt, of B n v p \<sigma> \<sigma>1 N base] show ?thesis by simp
    next
      case OutOfFuel
      with Cons.prems FpropV show ?thesis by simp
    qed
  qed
qed


lemma fpropActs_final: "\<exists>\<sigma>'. final (fpropActs B l v p \<sigma>) = Some \<sigma>'"
  by (cases "kind (layers \<sigma> l)") (simp_all add: fpropActs_defs Let_def)

lemma Layer_fprop_body_final: "\<exists>\<sigma>'. final (Layer_fprop_body B l v p \<sigma>) = Some \<sigma>'"
  by (simp add: Layer_fprop_body_def Let_def fpropActs_final)

lemma unfired_sameCtl: "sameCtl \<sigma> \<sigma>' \<Longrightarrow> unfired \<sigma>' = unfired \<sigma>"
  by (auto simp: unfired_def sameCtl_def graph_def)

lemma Layer_fprop_body_unfired:
  assumes "final (Layer_fprop_body B l v p \<sigma>) = Some \<sigma>'"
  shows "unfired \<sigma>' \<subseteq> unfired \<sigma>"
    and "length v = length (prev (layers \<sigma> l)) \<Longrightarrow> l \<notin> unfired \<sigma>'"
proof -
  from Layer_fprop_body_frame [OF assms]
  consider "\<sigma>' = \<sigma>" "length v \<noteq> length (prev (layers \<sigma> l))"
    | "sameCtl (updL l (\<lambda>x. x\<lparr>rcvdFInputs := int (length (prev x))\<rparr>) \<sigma>) \<sigma>'"
    by blast
  then have "unfired \<sigma>' \<subseteq> unfired \<sigma> \<and> (length v = length (prev (layers \<sigma> l)) \<longrightarrow> l \<notin> unfired \<sigma>')"
  proof cases
    case 1
    then show ?thesis by simp
  next
    case 2
    from unfired_sameCtl [OF 2] show ?thesis by (auto simp: unfired_def store_simps)
  qed
  then show "unfired \<sigma>' \<subseteq> unfired \<sigma>"
    and "length v = length (prev (layers \<sigma> l)) \<Longrightarrow> l \<notin> unfired \<sigma>'" by simp_all
qed

lemma fpropNext_total_from:
  assumes "\<And>l \<sigma>. finite (unfired \<sigma>) \<Longrightarrow> card (unfired \<sigma>) < n \<Longrightarrow>
             \<exists>\<sigma>'. final (fprop B n l p \<sigma>) = Some \<sigma>' \<and> unfired \<sigma>' \<subseteq> unfired \<sigma>"
  shows "finite (unfired \<sigma>) \<Longrightarrow> card (unfired \<sigma>) < n \<Longrightarrow>
           \<exists>\<sigma>'. final (fpropNext B n ls p \<sigma>) = Some \<sigma>' \<and> unfired \<sigma>' \<subseteq> unfired \<sigma>"
proof (induction ls arbitrary: \<sigma>)
  case Nil
  then show ?case by simp
next
  case (Cons x xs)
  from assms [OF Cons.prems] obtain \<sigma>1 where
    f1: "final (fprop B n x p \<sigma>) = Some \<sigma>1" and u1: "unfired \<sigma>1 \<subseteq> unfired \<sigma>" by blast
  from u1 Cons.prems have fin1: "finite (unfired \<sigma>1)" "card (unfired \<sigma>1) < n"
    by (auto intro: finite_subset dest: card_mono [OF Cons.prems(1)])
  show ?case
  proof (cases "fprop B n x p \<sigma>")
    case (Done \<sigma>2)
    with f1 have "\<sigma>2 = \<sigma>1" by simp
    with Done Cons.IH [OF fin1] u1 show ?thesis by auto
  next
    case (Raised e \<sigma>2)
    with f1 u1 show ?thesis by auto
  next
    case OutOfFuel
    with f1 show ?thesis by simp
  qed
qed

lemma fprop_total:
  "finite (unfired \<sigma>) \<Longrightarrow> card (unfired \<sigma>) < n \<Longrightarrow>
     \<exists>\<sigma>'. final (fprop B n l p \<sigma>) = Some \<sigma>' \<and> unfired \<sigma>' \<subseteq> unfired \<sigma>"
proof (induction n arbitrary: l \<sigma>)
  case 0
  then show ?case by simp
next
  case (Suc n)
  let ?\<sigma>1 = "updL l (\<lambda>x. x\<lparr>rcvdFInputs := rcvdFInputs x + 1\<rparr>) (emit (EvFprop l) \<sigma>)"
  have u1: "unfired ?\<sigma>1 \<subseteq> unfired \<sigma>" by (auto simp: unfired_def store_simps split: if_splits)
  show ?case
  proof (cases "kind (layers \<sigma> l) = DataLayer")
    case True
    then show ?thesis by simp
  next
    case nd: False
    show ?thesis
    proof (cases "rcvdFInputs (layers ?\<sigma>1 l) = int (length (prev (layers ?\<sigma>1 l)))")
      case False
      with nd u1 show ?thesis by (simp add: Let_def)
    next
      case fire: True
      let ?r = "Layer_fprop_body B l (map ActsOf (prev (layers ?\<sigma>1 l))) p ?\<sigma>1"
      from Layer_fprop_body_final obtain \<sigma>2 where f2: "final ?r = Some \<sigma>2" by blast
      from Layer_fprop_body_unfired [OF f2]
      have u2: "unfired \<sigma>2 \<subseteq> unfired ?\<sigma>1" "l \<notin> unfired \<sigma>2" by simp_all
      from fire nd have lin: "l \<in> unfired \<sigma>" by (simp add: unfired_def store_simps)
      from u1 u2 lin have "unfired \<sigma>2 \<subset> unfired \<sigma>" by blast
      with Suc.prems have fin2: "finite (unfired \<sigma>2)" "card (unfired \<sigma>2) < n"
        using psubset_card_mono [of "unfired \<sigma>" "unfired \<sigma>2"]
        by (auto intro: finite_subset)
      show ?thesis
      proof (cases ?r)
        case (Done \<sigma>3)
        with f2 have e: "\<sigma>3 = \<sigma>2" by simp
        from fpropNext_total_from [of n B p \<sigma>2 "next (layers \<sigma>2 l)", OF Suc.IH fin2]
        obtain \<sigma>' where "final (fpropNext B n (next (layers \<sigma>2 l)) p \<sigma>2) = Some \<sigma>'"
          "unfired \<sigma>' \<subseteq> unfired \<sigma>2" by blast
        with Done e nd fire u1 u2 show ?thesis by (auto simp: Let_def)
      next
        case (Raised e \<sigma>3)
        with f2 nd fire u1 u2 show ?thesis by (auto simp: Let_def)
      next
        case OutOfFuel
        with f2 show ?thesis by simp
      qed
    qed
  qed
qed

lemma fpropNext_total:
  "finite (unfired \<sigma>) \<Longrightarrow> card (unfired \<sigma>) < n \<Longrightarrow>
     \<exists>\<sigma>'. final (fpropNext B n ls p \<sigma>) = Some \<sigma>' \<and> unfired \<sigma>' \<subseteq> unfired \<sigma>"
  by (rule fpropNext_total_from [OF fprop_total])

lemma fprop_v_total:
  assumes "finite (unfired \<sigma>)" and "card (unfired \<sigma>) < n"
  shows "\<exists>\<sigma>'. final (fprop_v B n l v p \<sigma>) = Some \<sigma>' \<and> unfired \<sigma>' \<subseteq> unfired \<sigma>"
proof -
  let ?h = "if kind (layers \<sigma> l) = DataLayer then fpropActs B l v p \<sigma>
            else Layer_fprop_body B l v p \<sigma>"
  have "\<exists>\<sigma>2. final ?h = Some \<sigma>2"
    using fpropActs_final [of B l v p \<sigma>] Layer_fprop_body_final [of B l v p \<sigma>]
    by (cases "kind (layers \<sigma> l) = DataLayer") simp_all
  then obtain \<sigma>2 where f2: "final ?h = Some \<sigma>2" by blast
  have u2: "unfired \<sigma>2 \<subseteq> unfired \<sigma>"
  proof (cases "kind (layers \<sigma> l) = DataLayer")
    case True
    with f2 fpropActs_frame [of B l v p \<sigma> \<sigma>2] show ?thesis by (auto dest: unfired_sameCtl)
  next
    case False
    with f2 Layer_fprop_body_unfired(1) [of B l v p \<sigma> \<sigma>2] show ?thesis by simp
  qed
  with assms have fin2: "finite (unfired \<sigma>2)" "card (unfired \<sigma>2) < n"
    by (auto intro: finite_subset dest: card_mono [OF assms(1)])
  show ?thesis
  proof (cases ?h)
    case (Done \<sigma>3)
    with f2 have e: "\<sigma>3 = \<sigma>2" by simp
    from fpropNext_total [OF fin2, of B "next (layers \<sigma>2 l)" p] u2 Done e show ?thesis
      by (auto simp: fprop_v_def)
  next
    case (Raised e \<sigma>3)
    with f2 u2 show ?thesis by (auto simp: fprop_v_def)
  next
    case OutOfFuel
    with f2 show ?thesis by simp
  qed
qed

lemma forwardRun_total:
  "finite (unfired \<sigma>) \<Longrightarrow> card (unfired \<sigma>) < n \<Longrightarrow>
     \<exists>\<sigma>'. final (forwardRun B n p calls \<sigma>) = Some \<sigma>'"
proof (induction calls arbitrary: \<sigma>)
  case Nil
  then show ?case by simp
next
  case (Cons c cs)
  let ?r = "case c of Fprop l \<Rightarrow> fprop B n l p \<sigma> | FpropV l v \<Rightarrow> fprop_v B n l v p \<sigma>"
  from fprop_total [OF Cons.prems] fprop_v_total [OF Cons.prems]
  obtain \<sigma>1 where f1: "final ?r = Some \<sigma>1" and u1: "unfired \<sigma>1 \<subseteq> unfired \<sigma>"
    by (cases c) (auto, blast+)
  from u1 Cons.prems have fin1: "finite (unfired \<sigma>1)" "card (unfired \<sigma>1) < n"
    by (auto intro: finite_subset dest: card_mono [OF Cons.prems(1)])
  from Cons.IH [OF fin1] f1 show ?case
    by (cases c; cases ?r) auto
qed


text \<open>
  Claim C1. Let \<open>t\<close> be a layer that is not a data layer (a data layer has no
  predecessors and its \<^verbatim>\<open>fprop(passType)\<close> throws) with \<open>N \<ge> 1\<close> predecessors. After
  \<^verbatim>\<open>reset()\<close> on \<open>t\<close>, take any sequence of forward calls on any layers, in any order,
  as long as the driver does not call the list-based entry on \<open>t\<close> itself. Whenever the
  run ends (normally or by an exception), the counter of \<open>t\<close> is the number \<open>c\<close> of
  calls of \<^verbatim>\<open>fprop(passType)\<close> that \<open>t\<close> has received, and the forward events of \<open>t\<close>
  since the reset are exactly: the first \<open>min c N\<close> calls, then, if \<open>c \<ge> N\<close>, one run of
  \<^verbatim>\<open>fpropActs\<close> (right after the \<open>N\<close>th call) followed by the other calls. So
  \<^verbatim>\<open>fpropActs\<close> runs exactly once, on the \<open>N\<close>th call, whatever the order. The run does
  end when the fuel exceeds the number of layers that can still fire. A call that is
  not the \<open>N\<close>th only increments the counter: no computation, no call of a successor.
\<close>

theorem forward_fires_once_on_Nth_call:
  fixes B :: "'m backend"
  assumes "kind (layers \<sigma> t) \<noteq> DataLayer" and "1 \<le> length (prev (layers \<sigma> t))"
    and "\<forall>l v. FpropV l v \<in> set calls \<longrightarrow> l \<noteq> t"
  shows "(\<forall>\<sigma>'. final (forwardRun B n p calls (reset t \<sigma>)) = Some \<sigma>' \<longrightarrow>
            0 \<le> rcvdFInputs (layers \<sigma>' t)
            \<and> fwdEvents t (trace \<sigma>') =
                fwdEvents t (trace \<sigma>)
                @ fwdPattern t (length (prev (layers \<sigma> t))) (nat (rcvdFInputs (layers \<sigma>' t))))
     \<and> (finite (unfired \<sigma>) \<and> card (unfired (reset t \<sigma>)) < n \<longrightarrow>
            final (forwardRun B n p calls (reset t \<sigma>)) \<noteq> None)
     \<and> (\<forall>\<tau> k. kind (layers \<tau> t) \<noteq> DataLayer
              \<and> rcvdFInputs (layers \<tau> t) + 1 \<noteq> int (length (prev (layers \<tau> t))) \<longrightarrow>
            fprop B (Suc k) t p \<tau> =
              Done (updL t (\<lambda>x. x\<lparr>rcvdFInputs := rcvdFInputs x + 1\<rparr>) (emit (EvFprop t) \<tau>)))"
proof (intro conjI allI impI)
  fix \<sigma>' assume fin: "final (forwardRun B n p calls (reset t \<sigma>)) = Some \<sigma>'"
  let ?N = "length (prev (layers \<sigma> t))"
  have "(fwdPattern t ?N 0 :: 'm event list) = []" using assms(2) by (auto simp: fwdPattern_def)
  with assms(1) have "FInv t ?N (fwdEvents t (trace \<sigma>)) (reset t \<sigma>)"
    by (simp add: FInv_def reset_def store_simps)
  from forwardRun_FInv [OF assms(3) fin this]
  show "0 \<le> rcvdFInputs (layers \<sigma>' t)"
    and "fwdEvents t (trace \<sigma>') =
           fwdEvents t (trace \<sigma>) @ fwdPattern t ?N (nat (rcvdFInputs (layers \<sigma>' t)))"
    by (simp_all add: FInv_def)
next
  assume a: "finite (unfired \<sigma>) \<and> card (unfired (reset t \<sigma>)) < n"
  have "unfired (reset t \<sigma>) \<subseteq> insert t (unfired \<sigma>)"
    by (auto simp: unfired_def reset_def store_simps split: if_splits)
  with a have "finite (unfired (reset t \<sigma>))" by (auto intro: finite_subset)
  with a forwardRun_total [of "reset t \<sigma>" n B p calls]
  show "final (forwardRun B n p calls (reset t \<sigma>)) \<noteq> None" by auto
next
  fix \<tau> :: "'m net" and k
  assume "kind (layers \<tau> t) \<noteq> DataLayer
          \<and> rcvdFInputs (layers \<tau> t) + 1 \<noteq> int (length (prev (layers \<tau> t)))"
  then show "fprop B (Suc k) t p \<tau> =
              Done (updL t (\<lambda>x. x\<lparr>rcvdFInputs := rcvdFInputs x + 1\<rparr>) (emit (EvFprop t) \<tau>))"
    by (simp add: Let_def store_simps)
qed

theorem forward_fires_once_on_Nth_call_witness:
  "(case final (forwardRun toyBackend 4 PASS_TRAIN
                  [FpropV 0 [Ext 0, Ext 1], FpropV 1 [Ext 0, Ext 1]] (reset 4 (exNet 1))) of
      None \<Rightarrow> False
    | Some \<sigma>' \<Rightarrow> rcvdFInputs (layers \<sigma>' 4) = 2
               \<and> fwdEvents 4 (trace \<sigma>') = [EvFprop 4, EvFprop 4, EvFpropActs 4])"
proof -
  let ?calls = "[FpropV 0 [Ext 0, Ext 1], FpropV 1 [Ext 0, Ext 1]]"
  have "\<exists>\<sigma>'. final (forwardRun toyBackend 4 PASS_TRAIN ?calls (reset 4 (exNet 1))) = Some \<sigma>'
          \<and> rcvdFInputs (layers \<sigma>' 4) = 2"
    by (simp add: eval_nat_numeral fprop_v_def Layer_fprop_body_def fpropActs_defs exNet_defs)
  then obtain \<sigma>' where f: "final (forwardRun toyBackend 4 PASS_TRAIN ?calls (reset 4 (exNet 1))) = Some \<sigma>'"
    and r: "rcvdFInputs (layers \<sigma>' 4) = 2" by blast
  have h: "kind (layers (exNet 1) 4) \<noteq> DataLayer" "1 \<le> length (prev (layers (exNet 1) 4))"
    "\<forall>l v. FpropV l v \<in> set ?calls \<longrightarrow> l \<noteq> 4"
    "trace (exNet 1) = []" "prev (layers (exNet 1) 4) = [0, 3]"
    by (auto simp: exNet_defs)
  from forward_fires_once_on_Nth_call [OF h(1,2,3), of toyBackend 4 PASS_TRAIN] f
  have "fwdEvents 4 (trace \<sigma>') =
          fwdEvents 4 (trace (exNet 1))
          @ fwdPattern 4 (length (prev (layers (exNet 1) 4))) (nat (rcvdFInputs (layers \<sigma>' 4)))"
    by blast
  with h(4,5) r f show ?thesis
    by (simp add: fwdPattern_def eval_nat_numeral)
qed


section \<open>The backward protocol\<close>

lemmas bpropActs_defs = bpropActs_def FCLayer_bpropActs_def ConvLayer_bpropActs_def
  SoftmaxLayer_bpropActs_def PoolLayer_bpropActs_def ResponseNormLayer_bpropActs_def
  ContrastNormLayer_bpropActs_def LogregCostLayer_bpropActs_def

lemma bpropActs_Raised: "bpropActs B l v i p \<sigma> = Raised e \<sigma>' \<Longrightarrow> \<sigma>' = \<sigma>"
  by (cases "kind (layers \<sigma> l)") (auto simp: bpropActs_defs Let_def split: if_splits)

lemma bpropActs_not_OutOfFuel: "bpropActs B l v i p \<sigma> \<noteq> OutOfFuel"
  by (cases "kind (layers \<sigma> l)") (auto simp: bpropActs_defs Let_def split: if_splits)

lemma accumulatesD:
  assumes "accumulates B"
  shows "addProduct B t a b 1 1 = t + rightMult B a b"
    and "convImgActs B v w t ps 1 1 = t + convImgActs B v w t ps 0 1"
    and "computeLogregSoftmaxGrads B lb pr t True c = t + computeLogregSoftmaxGrads B lb pr t False c"
    and "computeSoftmaxGrads B a v t True = t + computeSoftmaxGrads B a v t False"
    and "convLocalMaxUndo B a v ac t ps 1 1 = t + convLocalMaxUndo B a v ac t ps 0 1"
    and "convLocalAvgUndo B v t ps 1 1 = t + convLocalAvgUndo B v t ps 0 1"
    and "convResponseNormUndo B v d a ac t ps fs 1 1 = t + convResponseNormUndo B v d a ac t ps fs 0 1"
    and "convContrastNormUndo B v d md ac t ps fs 1 1 = t + convContrastNormUndo B v d md ac t ps fs 0 1"
    and "computeLogregGrads B lb pr t True c = t + computeLogregGrads B lb pr t False c"
  using assms by (simp_all add: accumulates_def)

lemma contributesI:
  "(rcvdBInputs (layers \<sigma> (prev (layers \<sigma> l) ! i)) = 0 \<Longrightarrow> g = c) \<Longrightarrow>
   (accumulates B \<Longrightarrow> 0 < rcvdBInputs (layers \<sigma> (prev (layers \<sigma> l) ! i)) \<Longrightarrow>
      g = actGrads (layers \<sigma> (prev (layers \<sigma> l) ! i)) + c) \<Longrightarrow>
   contributes B \<sigma> l i
     (emit (EvGrad k l i (prev (layers \<sigma> l) ! i) c)
        (updL (prev (layers \<sigma> l) ! i) (\<lambda>x. x\<lparr>actGrads := g\<rparr>) \<sigma>))"
  unfolding contributes_def by blast

lemma bpropActs_effect:
  fixes B :: "('m::plus) backend"
  assumes "bpropActs B l v i p \<sigma> = Done \<sigma>'" and "i < length (prev (layers \<sigma> l))"
  shows "(writesNothing \<sigma> l i \<and> \<sigma>' = \<sigma>) \<or> (\<not> writesNothing \<sigma> l i \<and> contributes B \<sigma> l i \<sigma>')"
proof (cases "kind (layers \<sigma> l)")
  case FCLayer
  with assms show ?thesis
    by (auto simp: bpropActs_def FCLayer_bpropActs_def Let_def writesNothing_def
        getRcvdBInputs_def accumulatesD split: if_splits intro!: contributesI)
next
  case ConvLayer
  with assms show ?thesis
    by (auto simp: bpropActs_def ConvLayer_bpropActs_def Let_def writesNothing_def
        getRcvdBInputs_def accumulatesD split: if_splits intro!: contributesI)
next
  case SoftmaxLayer
  with assms show ?thesis
    by (auto simp: bpropActs_def SoftmaxLayer_bpropActs_def Let_def writesNothing_def
        getRcvdBInputs_def accumulatesD split: if_splits intro!: contributesI)
next
  case DataLayer
  with assms show ?thesis by (simp add: bpropActs_def writesNothing_def)
next
  case PoolLayer
  with assms show ?thesis
    by (auto simp: bpropActs_def PoolLayer_bpropActs_def Let_def writesNothing_def
        getRcvdBInputs_def accumulatesD split: if_splits intro!: contributesI)
next
  case ResponseNormLayer
  with assms show ?thesis
    by (auto simp: bpropActs_def ResponseNormLayer_bpropActs_def Let_def writesNothing_def
        getRcvdBInputs_def accumulatesD split: if_splits intro!: contributesI)
next
  case ContrastNormLayer
  with assms show ?thesis
    by (auto simp: bpropActs_def ContrastNormLayer_bpropActs_def Let_def writesNothing_def
        getRcvdBInputs_def accumulatesD split: if_splits intro!: contributesI)
next
  case LogregCostLayer
  with assms show ?thesis
    by (auto simp: bpropActs_def LogregCostLayer_bpropActs_def Let_def writesNothing_def
        getRcvdBInputs_def accumulatesD split: if_splits intro!: contributesI)
qed

lemma sameCtl_sym: "sameCtl \<sigma> \<sigma>' \<Longrightarrow> sameCtl \<sigma>' \<sigma>"
  by (simp add: sameCtl_def)

lemma lstep_graph:
  assumes "lstep B l \<sigma> \<sigma>'"
  shows "graph (layers \<sigma>' x) = graph (layers \<sigma> x)"
    and "rcvdBInputs (layers \<sigma> x) \<le> rcvdBInputs (layers \<sigma>' x)"
    and "saveActs \<sigma>' = saveActs \<sigma>" and "saveActGrads \<sigma>' = saveActGrads \<sigma>"
  using assms
  by (induction rule: lstep.induct)
    (auto simp: bufStep_def sameCtl_def contributes_def incRcvdBInputs_def store_simps graph_def)

lemma lsteps_graph:
  assumes "(lstep B l)\<^sup>*\<^sup>* \<sigma> \<sigma>'"
  shows "graph (layers \<sigma>' x) = graph (layers \<sigma> x)"
    and "rcvdBInputs (layers \<sigma> x) \<le> rcvdBInputs (layers \<sigma>' x)"
    and "saveActs \<sigma>' = saveActs \<sigma>" and "saveActGrads \<sigma>' = saveActGrads \<sigma>"
  using assms
proof (induction rule: rtranclp_induct)
  case base
  {
    case 1 show ?case by simp
  next
    case 2 show ?case by simp
  next
    case 3 show ?case by simp
  next
    case 4 show ?case by simp
  }
next
  case (step y z)
  {
    case 1 with step lstep_graph(1) [of B l y z x] show ?case by simp
  next
    case 2 with step lstep_graph(2) [of B l y z x] show ?case by simp
  next
    case 3 with step lstep_graph(3) [of B l y z] show ?case by simp
  next
    case 4 with step lstep_graph(4) [of B l y z] show ?case by simp
  }
qed

lemma bpropActs_loop_lsteps:
  fixes B :: "('m::plus) backend"
  assumes "gradProducer (layers \<sigma> l)"
  shows "\<forall>i\<in>set is. i < length (prev (layers \<sigma> l)) \<Longrightarrow>
         final (bpropActs_loop B l v p is \<sigma>) = Some \<sigma>' \<Longrightarrow> (lstep B l)\<^sup>*\<^sup>* \<sigma> \<sigma>'"
  using assms
proof (induction "is" arbitrary: \<sigma>)
  case Nil
  then show ?case by simp
next
  case (Cons i "is")
  let ?q = "prev (layers \<sigma> l) ! i"
  from Cons.prems have il: "i < length (prev (layers \<sigma> l))" by simp
  have next_ok: "(lstep B l)\<^sup>*\<^sup>* \<sigma>1 \<sigma>'"
    if st: "lstep B l \<sigma> \<sigma>1 \<or> \<sigma>1 = \<sigma>" and f: "final (bpropActs_loop B l v p is \<sigma>1) = Some \<sigma>'" for \<sigma>1
  proof -
    from st have g: "graph (layers \<sigma>1 l) = graph (layers \<sigma> l)"
      using lstep_graph(1) [of B l \<sigma> \<sigma>1 l] by auto
    with Cons.prems have "\<forall>i\<in>set is. i < length (prev (layers \<sigma>1 l))" "gradProducer (layers \<sigma>1 l)"
      by (simp_all add: graph_def)
    from Cons.IH [OF this(1) f this(2)] show ?thesis .
  qed
  show ?case
  proof (cases "isGradConsumer \<sigma> ?q")
    case False
    with Cons.prems next_ok [of \<sigma>] show ?thesis by (simp add: Let_def)
  next
    case True
    show ?thesis
    proof (cases "bpropActs B l v i p \<sigma>")
      case (Done \<sigma>1)
      with True Cons.prems have f: "final (bpropActs_loop B l v p is (incRcvdBInputs ?q \<sigma>1)) = Some \<sigma>'"
        by (simp add: Let_def)
      from bpropActs_effect [OF Done il] Cons.prems(3) il
      have "lstep B l \<sigma> (incRcvdBInputs ?q \<sigma>1)"
        by (auto intro: lstep.contrib lstep.skip)
      with next_ok [OF _ f] show ?thesis by (meson converse_rtranclp_into_rtranclp)
    next
      case (Raised e \<sigma>1)
      with True Cons.prems bpropActs_Raised [OF Raised] show ?thesis by (simp add: Let_def)
    next
      case OutOfFuel
      with bpropActs_not_OutOfFuel show ?thesis by blast
    qed
  qed
qed

lemma actGrads_transpose [simp]:
  "actGrads (layers (transpose b r \<sigma>) x) = actGrads (layers \<sigma> x)"
  by (cases r) (simp_all add: store_simps)

lemma flagStep_refl [simp]: "flagStep \<sigma> \<sigma>"
  by (simp add: flagStep_def)

lemma flagStep_transpose [simp]: "flagStep \<sigma> (transpose b r \<sigma>') = flagStep \<sigma> \<sigma>'"
  by (simp add: flagStep_def del: transpose.simps)

lemma flagStep_fold_transpose2 [simp]:
  "flagStep \<sigma> (fold (\<lambda>q s. transpose b (ActGradsOf q) (transpose b (ActsOf q) s)) qs \<sigma>')
   = flagStep \<sigma> \<sigma>'"
  by (induction qs arbitrary: \<sigma>') (simp_all del: transpose.simps)

lemma bufStep_bpropCommon: "bufStep l \<sigma> (bpropCommon B l (ActGradsOf l) p \<sigma>)"
  by (auto simp: bufStep_def bpropCommon_def store_simps sameCtl_updL graph_def)

lemma bufStep_truncBwdActs: "bufStep l \<sigma> (truncBwdActs B l \<sigma>)"
  by (auto simp: bufStep_def truncBwdActs_def Layer_truncBwdActs_def Let_def store_simps
      sameCtl_updL graph_def)

lemma FCLayer_bpropWeights_loop_frame:
  "final (FCLayer_bpropWeights_loop B l v p is \<sigma>) = Some \<sigma>' \<Longrightarrow>
   sameCtl \<sigma> \<sigma>' \<and> trace \<sigma>' = trace \<sigma> \<and> (\<forall>x. actGrads (layers \<sigma>' x) = actGrads (layers \<sigma> x))"
proof (induction "is" arbitrary: \<sigma>)
  case Nil
  then show ?case by simp
next
  case (Cons i "is")
  show ?case
  proof (cases "length (weights (layers \<sigma> l)) \<le> i")
    case True
    with Cons.prems show ?thesis by simp
  next
    case False
    let ?\<sigma>1 = "updL l (\<lambda>x. x\<lparr>weights := (weights x)[i := (weights (layers \<sigma> l) ! i)
        \<lparr>getInc := addProduct B (getInc (weights (layers \<sigma> l) ! i))
            (getTranspose B (acts (layers \<sigma> (prev (layers \<sigma> l) ! i)))) (deref \<sigma> v)
            ((if p \<noteq> PASS_GC then 1 else 0) * getMom (weights (layers \<sigma> l) ! i))
            (if p = PASS_GC then 1
             else getEps (weights (layers \<sigma> l) ! i) / real_of_int (getNumRows B (deref \<sigma> v)))\<rparr>]\<rparr>) \<sigma>"
    from False Cons.prems have "final (FCLayer_bpropWeights_loop B l v p is ?\<sigma>1) = Some \<sigma>'"
      by (simp add: Let_def)
    from Cons.IH [OF this] show ?thesis
      by (simp add: sameCtl_def store_simps graph_def)
  qed
qed

lemma bufStep_bpropWeights:
  assumes "final (bpropWeights B l (ActGradsOf l) p (emit (EvBpropWeights l) \<sigma>)) = Some \<sigma>'"
  shows "bufStep l \<sigma> \<sigma>'"
proof -
  consider (fc) "kind (layers \<sigma> l) = FCLayer" | (conv) "kind (layers \<sigma> l) = ConvLayer"
    | (other) "kind (layers \<sigma> l) \<noteq> FCLayer" "kind (layers \<sigma> l) \<noteq> ConvLayer" by blast
  then show ?thesis
  proof cases
    case fc
    let ?\<sigma>b = "updL l (\<lambda>x. x\<lparr>biases := (biases x)\<lparr>getGrads :=
        sumAxis B 0 (deref (emit (EvBpropWeights l) \<sigma>) (ActGradsOf l))\<rparr>\<rparr>) (emit (EvBpropWeights l) \<sigma>)"
    from fc assms have "final (FCLayer_bpropWeights_loop B l (ActGradsOf l) p
        [0..<length (prev (layers \<sigma> l))] ?\<sigma>b) = Some \<sigma>'"
      by (simp add: bpropWeights_def FCLayer_bpropWeights_def store_simps)
    from FCLayer_bpropWeights_loop_frame [OF this] show ?thesis
      by (simp add: bufStep_def sameCtl_def store_simps graph_def)
  next
    case conv
    with assms show ?thesis
      by (auto simp: bpropWeights_def ConvLayer_bpropWeights_def Let_def bufStep_def store_simps
          sameCtl_updL graph_def split: if_splits)
  next
    case other
    with assms show ?thesis
      by (auto simp: bpropWeights_def bufStep_def store_simps)
  qed
qed

lemma Layer_bprop_body_steps:
  fixes B :: "('m::plus) backend"
  assumes "final (Layer_bprop_body B l (ActGradsOf l) p \<sigma>) = Some \<sigma>'"
  shows "\<exists>\<sigma>3. flagStep \<sigma> \<sigma>3
          \<and> (lstep B l)\<^sup>*\<^sup>* (emit (EvBpropCommon l (actGrads (layers \<sigma>3 l))) \<sigma>3) \<sigma>'"
proof -
  let ?t = "transL (layers \<sigma> l)"
  let ?v = "ActGradsOf l"
  let ?\<sigma>3 = "transpose ?t (ActsOf l)
               (fold (\<lambda>q s. transpose ?t (ActGradsOf q) (transpose ?t (ActsOf q) s))
                  (prev (layers \<sigma> l)) (transpose ?t ?v \<sigma>))"
  let ?\<sigma>F = "emit (EvBpropCommon l (actGrads (layers ?\<sigma>3 l))) ?\<sigma>3"
  let ?\<sigma>4 = "bpropCommon B l ?v p ?\<sigma>F"
  let ?loop = "if isGradProducer ?\<sigma>4 l
               then bpropActs_loop B l ?v p [0..<length (prev (layers ?\<sigma>4 l))] ?\<sigma>4 else Done ?\<sigma>4"
  have fs: "flagStep \<sigma> ?\<sigma>3" by (simp del: transpose.simps)
  have s4: "lstep B l ?\<sigma>F ?\<sigma>4" by (rule lstep.buf) (rule bufStep_bpropCommon)
  have body: "Layer_bprop_body B l ?v p \<sigma> =
      (case ?loop of
         Done \<sigma>5 \<Rightarrow> (case bpropWeights B l ?v p (emit (EvBpropWeights l) \<sigma>5) of
                       Done \<sigma>6 \<Rightarrow> Done (truncBwdActs B l \<sigma>6) | r \<Rightarrow> r)
       | r \<Rightarrow> r)"
    by (simp add: Layer_bprop_body_def Let_def del: transpose.simps)
  have loop_steps: "(lstep B l)\<^sup>*\<^sup>* ?\<sigma>4 \<sigma>5" if "final ?loop = Some \<sigma>5" for \<sigma>5
  proof (cases "isGradProducer ?\<sigma>4 l")
    case True
    with that have "final (bpropActs_loop B l ?v p [0..<length (prev (layers ?\<sigma>4 l))] ?\<sigma>4) = Some \<sigma>5"
      by simp
    moreover from True have "gradProducer (layers ?\<sigma>4 l)" by (simp add: isGradProducer_def)
    ultimately show ?thesis by (intro bpropActs_loop_lsteps [of ?\<sigma>4 l]) auto
  next
    case False
    with that show ?thesis by simp
  qed
  have "(lstep B l)\<^sup>*\<^sup>* ?\<sigma>4 \<sigma>'"
  proof (cases ?loop)
    case (Done \<sigma>5)
    then have l5: "(lstep B l)\<^sup>*\<^sup>* ?\<sigma>4 \<sigma>5" using loop_steps by simp
    show ?thesis
    proof (cases "bpropWeights B l ?v p (emit (EvBpropWeights l) \<sigma>5)")
      case w: (Done \<sigma>6)
      with Done assms body have e: "\<sigma>' = truncBwdActs B l \<sigma>6" by simp
      from w have "lstep B l \<sigma>5 \<sigma>6" by (intro lstep.buf bufStep_bpropWeights [of B l p]) simp
      moreover have "lstep B l \<sigma>6 \<sigma>'" unfolding e by (intro lstep.buf bufStep_truncBwdActs)
      ultimately show ?thesis using l5 by (meson rtranclp.rtrancl_into_rtrancl)
    next
      case w: (Raised e \<sigma>6)
      with Done assms body have e: "\<sigma>' = \<sigma>6" by simp
      from w have "lstep B l \<sigma>5 \<sigma>6" by (intro lstep.buf bufStep_bpropWeights [of B l p]) simp
      with l5 e show ?thesis by (meson rtranclp.rtrancl_into_rtrancl)
    next
      case OutOfFuel
      with Done assms body show ?thesis by simp
    qed
  next
    case (Raised e \<sigma>5)
    with assms body have "\<sigma>' = \<sigma>5" by simp
    with Raised loop_steps show ?thesis by simp
  next
    case OutOfFuel
    with assms body show ?thesis by simp
  qed
  with s4 have "(lstep B l)\<^sup>*\<^sup>* ?\<sigma>F \<sigma>'" by (meson converse_rtranclp_into_rtranclp)
  with fs show ?thesis by blast
qed

lemma lsteps_preserve:
  assumes "(lstep B l)\<^sup>*\<^sup>* \<sigma> \<sigma>'" and "P \<sigma>" and "Q \<sigma>"
    and step: "\<And>\<sigma> \<sigma>'. P \<sigma> \<Longrightarrow> Q \<sigma> \<Longrightarrow> lstep B l \<sigma> \<sigma>' \<Longrightarrow> P \<sigma>' \<and> Q \<sigma>'"
  shows "P \<sigma>' \<and> Q \<sigma>'"
  using assms(1,2,3)
  by (induction rule: rtranclp_induct) (auto dest: step)

lemma bprop_Suc_cases:
  fixes B :: "('m::plus) backend"
  assumes "final (bprop B (Suc n) l p \<sigma>) = Some \<sigma>'"
  obtains (inert) "inert \<sigma> l" "\<sigma>' = \<sigma>"
    | (call) "\<not> inert \<sigma> l" "rcvdBInputs (layers \<sigma> l) \<noteq> numGradProducersNext (layers \<sigma> l)"
        "\<sigma>' = emit (EvBprop l) \<sigma>"
    | (fire) \<sigma>3 \<sigma>2 where "\<not> inert \<sigma> l"
        "rcvdBInputs (layers \<sigma> l) = numGradProducersNext (layers \<sigma> l)"
        "flagStep (updL l (\<lambda>x. x\<lparr>rcvdBInputs := rcvdBInputs x + 1\<rparr>) (emit (EvBprop l) \<sigma>)) \<sigma>3"
        "(lstep B l)\<^sup>*\<^sup>* (emit (EvBpropCommon l (actGrads (layers \<sigma>3 l))) \<sigma>3) \<sigma>2"
        "\<sigma>' = \<sigma>2 \<or> final (bpropPrev B n (prev (layers \<sigma>2 l)) p \<sigma>2) = Some \<sigma>'"
proof (cases "inert \<sigma> l")
  case True
  then have "bprop B (Suc n) l p \<sigma> = Done \<sigma>" by (simp add: inert_def)
  with assms have "\<sigma>' = \<sigma>" by simp
  with True show ?thesis by (rule inert)
next
  case ni: False
  show ?thesis
  proof (cases "rcvdBInputs (layers \<sigma> l) = numGradProducersNext (layers \<sigma> l)")
    case False
    with ni assms call show ?thesis by (auto simp: inert_def Let_def store_simps)
  next
    case True
    let ?\<sigma>1 = "updL l (\<lambda>x. x\<lparr>rcvdBInputs := rcvdBInputs x + 1\<rparr>) (emit (EvBprop l) \<sigma>)"
    let ?r = "Layer_bprop_body B l (ActGradsOf l) p ?\<sigma>1"
    from ni True assms have a: "final (case ?r of
         Done \<sigma>1 \<Rightarrow> (if isGradProducer \<sigma>1 l then bpropPrev B n (prev (layers \<sigma>1 l)) p \<sigma>1 else Done \<sigma>1)
       | r \<Rightarrow> r) = Some \<sigma>'"
      by (auto simp: inert_def Let_def store_simps)
    then obtain \<sigma>2 where f2: "final ?r = Some \<sigma>2"
      and e: "\<sigma>' = \<sigma>2 \<or> final (bpropPrev B n (prev (layers \<sigma>2 l)) p \<sigma>2) = Some \<sigma>'"
      by (cases ?r) (auto split: if_splits)
    from Layer_bprop_body_steps [OF f2] obtain \<sigma>3 where
      "flagStep ?\<sigma>1 \<sigma>3" "(lstep B l)\<^sup>*\<^sup>* (emit (EvBpropCommon l (actGrads (layers \<sigma>3 l))) \<sigma>3) \<sigma>2"
      by blast
    with ni True e fire show ?thesis by blast
  qed
qed

lemma bpropPrev_preserves:
  assumes "\<And>l \<sigma> \<sigma>'. final (bprop B n l p \<sigma>) = Some \<sigma>' \<Longrightarrow> P \<sigma> \<Longrightarrow> P \<sigma>'"
  shows "final (bpropPrev B n qs p \<sigma>) = Some \<sigma>' \<Longrightarrow> P \<sigma> \<Longrightarrow> P \<sigma>'"
proof (induction qs arbitrary: \<sigma>)
  case Nil
  then show ?case by simp
next
  case (Cons q qs)
  show ?case
  proof (cases "isGradConsumer \<sigma> q")
    case False
    with Cons show ?thesis by simp
  next
    case True
    show ?thesis
    proof (cases "bprop B n q p \<sigma>")
      case (Done \<sigma>1)
      with True Cons.prems assms [of q \<sigma> \<sigma>1] have "P \<sigma>1" "final (bpropPrev B n qs p \<sigma>1) = Some \<sigma>'"
        by simp_all
      then show ?thesis using Cons.IH by blast
    next
      case (Raised e \<sigma>1)
      with True Cons.prems assms [of q \<sigma> \<sigma>1] show ?thesis by simp
    next
      case OutOfFuel
      with True Cons.prems show ?thesis by simp
    qed
  qed
qed

lemma bprop_preserves:
  fixes B :: "('m::plus) backend" and P :: "'m net \<Rightarrow> bool" and Q :: "nat \<Rightarrow> 'm net \<Rightarrow> bool"
  assumes call: "\<And>\<sigma> l. P \<sigma> \<Longrightarrow> P (emit (EvBprop l) \<sigma>)"
    and fire: "\<And>\<sigma> l \<sigma>3. P \<sigma> \<Longrightarrow> \<not> inert \<sigma> l \<Longrightarrow>
        rcvdBInputs (layers \<sigma> l) = numGradProducersNext (layers \<sigma> l) \<Longrightarrow>
        flagStep (updL l (\<lambda>x. x\<lparr>rcvdBInputs := rcvdBInputs x + 1\<rparr>) (emit (EvBprop l) \<sigma>)) \<sigma>3 \<Longrightarrow>
        P (emit (EvBpropCommon l (actGrads (layers \<sigma>3 l))) \<sigma>3)
        \<and> Q l (emit (EvBpropCommon l (actGrads (layers \<sigma>3 l))) \<sigma>3)"
    and step: "\<And>\<sigma> \<sigma>' l. P \<sigma> \<Longrightarrow> Q l \<sigma> \<Longrightarrow> lstep B l \<sigma> \<sigma>' \<Longrightarrow> P \<sigma>' \<and> Q l \<sigma>'"
  shows "final (bprop B n l p \<sigma>) = Some \<sigma>' \<Longrightarrow> P \<sigma> \<Longrightarrow> P \<sigma>'"
proof (induction n arbitrary: l \<sigma> \<sigma>')
  case 0
  then show ?case by simp
next
  case (Suc n)
  from Suc.prems(1) show ?case
  proof (cases rule: bprop_Suc_cases)
    case inert
    with Suc.prems show ?thesis by simp
  next
    case call
    with Suc.prems assms(1) show ?thesis by simp
  next
    case (fire \<sigma>3 \<sigma>2)
    from assms(2) [OF Suc.prems(2) fire(1,2,3)]
    have "P (emit (EvBpropCommon l (actGrads (layers \<sigma>3 l))) \<sigma>3)"
      "Q l (emit (EvBpropCommon l (actGrads (layers \<sigma>3 l))) \<sigma>3)" by simp_all
    from lsteps_preserve [of B l _ \<sigma>2 P "Q l", OF fire(4) this] step
    have "P \<sigma>2" by blast
    moreover have ih: "\<And>l \<sigma> \<sigma>'. final (bprop B n l p \<sigma>) = Some \<sigma>' \<Longrightarrow> P \<sigma> \<Longrightarrow> P \<sigma>'"
      using Suc.IH by blast
    have "final (bpropPrev B n qs p \<tau>) = Some \<sigma>' \<Longrightarrow> P \<tau> \<Longrightarrow> P \<sigma>'" for qs \<tau>
      by (rule bpropPrev_preserves [where P = P and B = B and n = n and p = p]) (rule ih)
    ultimately show ?thesis using fire(5) by blast
  qed
qed

lemma backwardRun_preserves:
  assumes "\<And>l \<sigma> \<sigma>'. final (bprop B n l p \<sigma>) = Some \<sigma>' \<Longrightarrow> P \<sigma> \<Longrightarrow> P \<sigma>'"
  shows "final (backwardRun B n p ls \<sigma>) = Some \<sigma>' \<Longrightarrow> P \<sigma> \<Longrightarrow> P \<sigma>'"
proof (induction ls arbitrary: \<sigma>)
  case Nil
  then show ?case by simp
next
  case (Cons l ls)
  show ?case
  proof (cases "bprop B n l p \<sigma>")
    case (Done \<sigma>1)
    with Cons.prems assms [of l \<sigma> \<sigma>1] have "P \<sigma>1" "final (backwardRun B n p ls \<sigma>1) = Some \<sigma>'"
      by simp_all
    then show ?thesis using Cons.IH by blast
  next
    case (Raised e \<sigma>1)
    with Cons.prems assms [of l \<sigma> \<sigma>1] show ?thesis by simp
  next
    case OutOfFuel
    with Cons.prems show ?thesis by simp
  qed
qed

lemma bwdFires_append [simp]: "bwdFires t (tr @ tr') = bwdFires t tr @ bwdFires t tr'"
  by (induction t tr rule: bwdFires.induct) simp_all

lemma contribs_append [simp]: "contribs t (tr @ tr') = contribs t tr @ contribs t tr'"
  by (induction t tr rule: contribs.induct) simp_all

lemma lstep_trace:
  assumes "lstep B l \<sigma> \<sigma>'"
  shows "\<exists>es. trace \<sigma>' = trace \<sigma> @ es \<and> bwdFires t es = []"
  using assms
  by (induction rule: lstep.induct)
    (auto simp: bufStep_def contributes_def incRcvdBInputs_def store_simps)

lemma CInv_call: "CInv t K n0 \<sigma> \<Longrightarrow> CInv t K n0 (emit (EvBprop l) \<sigma>)"
  by (simp add: CInv_def store_simps)

lemma CInv_fire:
  assumes "CInv t K n0 \<sigma>" and "rcvdBInputs (layers \<sigma> l) = numGradProducersNext (layers \<sigma> l)"
    and "flagStep (updL l (\<lambda>x. x\<lparr>rcvdBInputs := rcvdBInputs x + 1\<rparr>) (emit (EvBprop l) \<sigma>)) \<sigma>3"
  shows "CInv t K n0 (emit (EvBpropCommon l v) \<sigma>3)"
proof -
  from assms(3) have tr: "trace \<sigma>3 = trace \<sigma> @ [EvBprop l]"
    and K3: "numGradProducersNext (layers \<sigma>3 t) = numGradProducersNext (layers \<sigma> t)"
    and r3: "rcvdBInputs (layers \<sigma>3 t) = (if t = l then rcvdBInputs (layers \<sigma> t) + 1
                                              else rcvdBInputs (layers \<sigma> t))"
    by (auto simp: flagStep_def sameCtl_def store_simps graph_def split: if_splits)
  show ?thesis
  proof (cases "l = t")
    case True
    with assms(1,2) have "bwdFires t (drop n0 (trace \<sigma>)) = []"
      and "rcvdBInputs (layers \<sigma> t) = K" by (auto simp: CInv_def)
    with assms(1) True tr K3 r3 show ?thesis by (simp add: CInv_def store_simps)
  next
    case False
    with assms(1) tr K3 r3 show ?thesis by (simp add: CInv_def store_simps)
  qed
qed

lemma CInv_step:
  assumes "CInv t K n0 \<sigma>" and "lstep B l \<sigma> \<sigma>'"
  shows "CInv t K n0 \<sigma>'"
proof -
  from lstep_trace [OF assms(2), of t] obtain es where
    es: "trace \<sigma>' = trace \<sigma> @ es" "bwdFires t es = []" by blast
  from lstep_graph(1,2) [OF assms(2), of t]
  have "numGradProducersNext (layers \<sigma>' t) = numGradProducersNext (layers \<sigma> t)"
    "rcvdBInputs (layers \<sigma> t) \<le> rcvdBInputs (layers \<sigma>' t)"
    by (simp_all add: graph_def)
  with assms(1) es show ?thesis by (auto simp: CInv_def)
qed

lemma bprop_CInv:
  fixes B :: "('m::plus) backend"
  shows "final (bprop B n l p \<sigma>) = Some \<sigma>' \<Longrightarrow> CInv t K n0 \<sigma> \<Longrightarrow> CInv t K n0 \<sigma>'"
  by (rule bprop_preserves [where P = "CInv t K n0" and Q = "\<lambda>l \<sigma>. True" and B = B])
    (auto intro: CInv_call CInv_fire CInv_step)

lemma final_Some_iff: "(\<exists>\<sigma>'. final r = Some \<sigma>') \<longleftrightarrow> r \<noteq> OutOfFuel"
  by (cases r) simp_all

lemma bpropActs_loop_not_OutOfFuel: "bpropActs_loop B l v p is \<sigma> \<noteq> OutOfFuel"
proof (induction "is" arbitrary: \<sigma>)
  case Nil
  show ?case by simp
next
  case (Cons i "is")
  show ?case
    using Cons.IH bpropActs_not_OutOfFuel [of B l v i p \<sigma>]
    by (cases "bpropActs B l v i p \<sigma>") (simp_all add: Let_def)
qed

lemma FCLayer_bpropWeights_loop_not_OutOfFuel: "FCLayer_bpropWeights_loop B l v p is \<sigma> \<noteq> OutOfFuel"
  by (induction "is" arbitrary: \<sigma>) (simp_all add: Let_def)

lemma bpropWeights_not_OutOfFuel: "bpropWeights B l v p \<sigma> \<noteq> OutOfFuel"
  by (simp add: bpropWeights_def FCLayer_bpropWeights_def ConvLayer_bpropWeights_def Let_def
      FCLayer_bpropWeights_loop_not_OutOfFuel)

lemma Layer_bprop_body_not_OutOfFuel: "Layer_bprop_body B l v p \<sigma> \<noteq> OutOfFuel"
proof -
  have a: "(case r of Done \<sigma>6 \<Rightarrow> Done (f \<sigma>6) | r \<Rightarrow> r) \<noteq> OutOfFuel" if "r \<noteq> OutOfFuel"
    for r :: "'a outcome" and f
    using that by (cases r) simp_all
  have b: "(case r of Done \<sigma>5 \<Rightarrow> g \<sigma>5 | r \<Rightarrow> r) \<noteq> OutOfFuel"
    if "r \<noteq> OutOfFuel" "\<And>x. g x \<noteq> OutOfFuel" for r :: "'a outcome" and g
    using that by (cases r) simp_all
  show ?thesis
    unfolding Layer_bprop_body_def Let_def
    by (intro b a bpropWeights_not_OutOfFuel) (simp add: bpropActs_loop_not_OutOfFuel)
qed

lemma sameGraph_refl [simp]: "sameGraph \<sigma> \<sigma>"
  by (simp add: sameGraph_def)

lemma sameGraph_trans: "sameGraph \<sigma> \<sigma>' \<Longrightarrow> sameGraph \<sigma>' \<sigma>'' \<Longrightarrow> sameGraph \<sigma> \<sigma>''"
  by (simp add: sameGraph_def)

lemma prevClosed_sameGraph: "sameGraph \<sigma> \<sigma>' \<Longrightarrow> prevClosed \<sigma>' A = prevClosed \<sigma> A"
  by (simp add: sameGraph_def prevClosed_def graph_def)

lemma lsteps_canFire:
  assumes "(lstep B l)\<^sup>*\<^sup>* \<sigma> \<sigma>'"
  shows "canFire \<sigma>' \<subseteq> canFire \<sigma>" and "sameGraph \<sigma> \<sigma>'"
proof -
  have g: "graph (layers \<sigma>' x) = graph (layers \<sigma> x)"
    and r: "rcvdBInputs (layers \<sigma> x) \<le> rcvdBInputs (layers \<sigma>' x)" for x
    using lsteps_graph(1,2) [OF assms] by simp_all
  show "sameGraph \<sigma> \<sigma>'" using g by (simp add: sameGraph_def)
  show "canFire \<sigma>' \<subseteq> canFire \<sigma>"
  proof
    fix x assume "x \<in> canFire \<sigma>'"
    with g [of x] r [of x] show "x \<in> canFire \<sigma>"
      by (auto simp: canFire_def inert_def graph_def)
  qed
qed

lemma fire_canFire:
  assumes "rcvdBInputs (layers \<sigma> l) = numGradProducersNext (layers \<sigma> l)" and "\<not> inert \<sigma> l"
    and "flagStep (updL l (\<lambda>x. x\<lparr>rcvdBInputs := rcvdBInputs x + 1\<rparr>) (emit (EvBprop l) \<sigma>)) \<sigma>3"
  shows "canFire (emit e \<sigma>3) \<subseteq> canFire \<sigma> - {l}" and "sameGraph \<sigma> (emit e \<sigma>3)" and "l \<in> canFire \<sigma>"
  using assms
  by (auto simp: canFire_def inert_def flagStep_def sameCtl_def sameGraph_def store_simps graph_def
      split: if_splits)

lemma bpropPrev_total_from:
  fixes B :: "('m::plus) backend"
  assumes IH: "\<And>l \<sigma>. prevClosed \<sigma> A \<Longrightarrow> l \<in> A \<Longrightarrow> card (canFire \<sigma> \<inter> A) < n \<Longrightarrow>
        \<exists>\<sigma>'. final (bprop B n l p \<sigma>) = Some \<sigma>' \<and> canFire \<sigma>' \<subseteq> canFire \<sigma> \<and> sameGraph \<sigma> \<sigma>'"
    and fin: "finite A"
  shows "prevClosed \<sigma> A \<Longrightarrow> set qs \<subseteq> A \<Longrightarrow> card (canFire \<sigma> \<inter> A) < n \<Longrightarrow>
        \<exists>\<sigma>'. final (bpropPrev B n qs p \<sigma>) = Some \<sigma>' \<and> canFire \<sigma>' \<subseteq> canFire \<sigma> \<and> sameGraph \<sigma> \<sigma>'"
proof (induction qs arbitrary: \<sigma>)
  case Nil
  then show ?case by simp
next
  case (Cons q qs)
  show ?case
  proof (cases "isGradConsumer \<sigma> q")
    case False
    with Cons show ?thesis by simp
  next
    case True
    from Cons.prems have "q \<in> A" by simp
    from IH [OF Cons.prems(1) this Cons.prems(3)] obtain \<sigma>1 where
      f1: "final (bprop B n q p \<sigma>) = Some \<sigma>1" and c1: "canFire \<sigma>1 \<subseteq> canFire \<sigma>"
      and g1: "sameGraph \<sigma> \<sigma>1" by blast
    from c1 have "canFire \<sigma>1 \<inter> A \<subseteq> canFire \<sigma> \<inter> A" by blast
    with fin have "card (canFire \<sigma>1 \<inter> A) \<le> card (canFire \<sigma> \<inter> A)"
      by (intro card_mono) auto
    with Cons.prems have k1: "card (canFire \<sigma>1 \<inter> A) < n" by simp
    from g1 Cons.prems have p1: "prevClosed \<sigma>1 A" by (simp add: prevClosed_sameGraph)
    from Cons.prems have q1: "set qs \<subseteq> A" by simp
    show ?thesis
    proof (cases "bprop B n q p \<sigma>")
      case (Done \<sigma>2)
      with f1 have e: "\<sigma>2 = \<sigma>1" by simp
      from Cons.IH [OF p1 q1 k1] obtain \<sigma>' where
        "final (bpropPrev B n qs p \<sigma>1) = Some \<sigma>'" "canFire \<sigma>' \<subseteq> canFire \<sigma>1" "sameGraph \<sigma>1 \<sigma>'"
        by blast
      with Done e True c1 g1 show ?thesis by (auto intro: sameGraph_trans)
    next
      case (Raised e \<sigma>2)
      with f1 True c1 g1 show ?thesis by auto
    next
      case OutOfFuel
      with f1 show ?thesis by simp
    qed
  qed
qed

lemma bprop_total:
  fixes B :: "('m::plus) backend"
  assumes fin: "finite A"
  shows "prevClosed \<sigma> A \<Longrightarrow> l \<in> A \<Longrightarrow> card (canFire \<sigma> \<inter> A) < n \<Longrightarrow>
        \<exists>\<sigma>'. final (bprop B n l p \<sigma>) = Some \<sigma>' \<and> canFire \<sigma>' \<subseteq> canFire \<sigma> \<and> sameGraph \<sigma> \<sigma>'"
proof (induction n arbitrary: l \<sigma>)
  case 0
  then show ?case by simp
next
  case (Suc n)
  let ?\<sigma>1 = "updL l (\<lambda>x. x\<lparr>rcvdBInputs := rcvdBInputs x + 1\<rparr>) (emit (EvBprop l) \<sigma>)"
  let ?r = "Layer_bprop_body B l (ActGradsOf l) p ?\<sigma>1"
  consider (inert) "inert \<sigma> l"
    | (call) "\<not> inert \<sigma> l" "rcvdBInputs (layers \<sigma> l) \<noteq> numGradProducersNext (layers \<sigma> l)"
    | (fire) "\<not> inert \<sigma> l" "rcvdBInputs (layers \<sigma> l) = numGradProducersNext (layers \<sigma> l)"
    by blast
  then show ?case
  proof cases
    case inert
    then show ?thesis by (simp add: inert_def)
  next
    case call
    then have "bprop B (Suc n) l p \<sigma> = Done (emit (EvBprop l) \<sigma>)"
      by (auto simp: inert_def Let_def store_simps)
    moreover have "canFire (emit (EvBprop l) \<sigma>) = canFire \<sigma>" "sameGraph \<sigma> (emit (EvBprop l) \<sigma>)"
      by (simp_all add: canFire_def inert_def sameGraph_def store_simps)
    ultimately show ?thesis by simp
  next
    case fire
    from Layer_bprop_body_not_OutOfFuel [of B l "ActGradsOf l" p ?\<sigma>1]
    obtain \<sigma>2 where f2: "final ?r = Some \<sigma>2" by (auto simp: final_Some_iff [symmetric])
    from Layer_bprop_body_steps [OF f2] obtain \<sigma>3 where
      fs: "flagStep ?\<sigma>1 \<sigma>3"
      and ls: "(lstep B l)\<^sup>*\<^sup>* (emit (EvBpropCommon l (actGrads (layers \<sigma>3 l))) \<sigma>3) \<sigma>2"
      by blast
    note fc = fire_canFire(1) [OF fire(2,1) fs, where e = "EvBpropCommon l (actGrads (layers \<sigma>3 l))"]
      fire_canFire(2) [OF fire(2,1) fs, where e = "EvBpropCommon l (actGrads (layers \<sigma>3 l))"]
      fire_canFire(3) [OF fire(2,1) fs]
    note lc = lsteps_canFire [OF ls]
    from fc(1) lc(1) have c2: "canFire \<sigma>2 \<subseteq> canFire \<sigma> - {l}" by blast
    from fc(2) lc(2) have g2: "sameGraph \<sigma> \<sigma>2" by (rule sameGraph_trans)
    from c2 fc(3) Suc.prems(2) have "canFire \<sigma>2 \<inter> A \<subset> canFire \<sigma> \<inter> A" by blast
    with fin have "card (canFire \<sigma>2 \<inter> A) < card (canFire \<sigma> \<inter> A)"
      by (intro psubset_card_mono) auto
    with Suc.prems have k2: "card (canFire \<sigma>2 \<inter> A) < n" by simp
    from g2 Suc.prems have p2: "prevClosed \<sigma>2 A" by (simp add: prevClosed_sameGraph)
    from g2 Suc.prems(1,2) have q2: "set (prev (layers \<sigma>2 l)) \<subseteq> A"
      by (auto simp: sameGraph_def prevClosed_def graph_def)
    have unf: "bprop B (Suc n) l p \<sigma> =
        (case ?r of
           Done \<sigma>1 \<Rightarrow> (if isGradProducer \<sigma>1 l then bpropPrev B n (prev (layers \<sigma>1 l)) p \<sigma>1
                        else Done \<sigma>1)
         | r \<Rightarrow> r)"
      using fire by (auto simp: inert_def Let_def store_simps)
    show ?thesis
    proof (cases ?r)
      case (Done \<sigma>4)
      with f2 have e: "\<sigma>4 = \<sigma>2" by simp
      from bpropPrev_total_from [of A n B p \<sigma>2 "prev (layers \<sigma>2 l)", OF Suc.IH fin p2 q2 k2]
      obtain \<sigma>' where "final (bpropPrev B n (prev (layers \<sigma>2 l)) p \<sigma>2) = Some \<sigma>'"
        "canFire \<sigma>' \<subseteq> canFire \<sigma>2" "sameGraph \<sigma>2 \<sigma>'" by blast
      with Done e c2 g2 unf show ?thesis
        by (cases "isGradProducer \<sigma>2 l") (auto intro: sameGraph_trans)
    next
      case (Raised e \<sigma>4)
      with f2 c2 g2 unf show ?thesis by auto
    next
      case OutOfFuel
      with f2 show ?thesis by simp
    qed
  qed
qed

lemma backwardRun_total:
  fixes B :: "('m::plus) backend"
  assumes fin: "finite A"
  shows "prevClosed \<sigma> A \<Longrightarrow> set ls \<subseteq> A \<Longrightarrow> card (canFire \<sigma> \<inter> A) < n \<Longrightarrow>
        \<exists>\<sigma>'. final (backwardRun B n p ls \<sigma>) = Some \<sigma>'"
proof (induction ls arbitrary: \<sigma>)
  case Nil
  then show ?case by simp
next
  case (Cons l ls)
  from Cons.prems have "l \<in> A" by simp
  from bprop_total [OF fin Cons.prems(1) this Cons.prems(3), of B p] obtain \<sigma>1 where
    f1: "final (bprop B n l p \<sigma>) = Some \<sigma>1" and c1: "canFire \<sigma>1 \<subseteq> canFire \<sigma>"
    and g1: "sameGraph \<sigma> \<sigma>1" by blast
  from c1 have "canFire \<sigma>1 \<inter> A \<subseteq> canFire \<sigma> \<inter> A" by blast
  with fin have "card (canFire \<sigma>1 \<inter> A) \<le> card (canFire \<sigma> \<inter> A)"
    by (intro card_mono) auto
  with Cons.prems have k1: "card (canFire \<sigma>1 \<inter> A) < n" by simp
  from g1 Cons.prems have p1: "prevClosed \<sigma>1 A" by (simp add: prevClosed_sameGraph)
  from Cons.prems have "set ls \<subseteq> A" by simp
  from Cons.IH [OF p1 this k1] f1 show ?case
    by (cases "bprop B n l p \<sigma>") auto
qed

lemma wellFormed_sameGraph:
  "\<forall>x. graph (layers \<sigma>' x) = graph (layers \<sigma> x) \<Longrightarrow> wellFormed \<sigma>' = wellFormed \<sigma>"
  by (simp add: wellFormed_def graph_def)

lemma noSkipInto_sameGraph:
  "\<forall>x. graph (layers \<sigma>' x) = graph (layers \<sigma> x) \<Longrightarrow> noSkipInto \<sigma>' t = noSkipInto \<sigma> t"
  by (simp add: noSkipInto_def graph_def)

lemma writes_into:
  assumes "wellFormed \<sigma>" and "noSkipInto \<sigma> t" and "gradProducer (layers \<sigma> l)"
    and "i < length (prev (layers \<sigma> l))" and "prev (layers \<sigma> l) ! i = t"
  shows "\<not> writesNothing \<sigma> l i"
  using assms
  by (auto simp: writesNothing_def wellFormed_def noSkipInto_def doWork_def getNext_def getPrev_def
      getType_def)

lemma GInv_call: "GInv t K n0 \<sigma> \<Longrightarrow> GInv t K n0 (emit (EvBprop l) \<sigma>)"
  by (simp add: GInv_def store_simps wellFormed_def noSkipInto_def)

lemma GInv_fire:
  assumes inv: "GInv t K n0 \<sigma>"
    and eq: "rcvdBInputs (layers \<sigma> l) = numGradProducersNext (layers \<sigma> l)"
    and fs: "flagStep (updL l (\<lambda>x. x\<lparr>rcvdBInputs := rcvdBInputs x + 1\<rparr>) (emit (EvBprop l) \<sigma>)) \<sigma>3"
  shows "GInv t K n0 (emit (EvBpropCommon l (actGrads (layers \<sigma>3 l))) \<sigma>3)"
    and "hasFired t n0 l (emit (EvBpropCommon l (actGrads (layers \<sigma>3 l))) \<sigma>3)"
proof -
  let ?\<sigma>F = "emit (EvBpropCommon l (actGrads (layers \<sigma>3 l))) \<sigma>3"
  from fs have tr: "trace \<sigma>3 = trace \<sigma> @ [EvBprop l]"
    and g3: "\<forall>x. graph (layers \<sigma>3 x) = graph (layers \<sigma> x)"
    and a3: "actGrads (layers \<sigma>3 x) = actGrads (layers \<sigma> x)"
    and r3: "rcvdBInputs (layers \<sigma>3 t) = (if t = l then rcvdBInputs (layers \<sigma> t) + 1
                                              else rcvdBInputs (layers \<sigma> t))" for x
    by (auto simp: flagStep_def sameCtl_def store_simps graph_def split: if_splits)
  from g3 have gF: "\<forall>x. graph (layers ?\<sigma>F x) = graph (layers \<sigma> x)" by (simp add: store_simps)
  from inv have n0: "n0 \<le> length (trace \<sigma>)" by (simp add: GInv_def)
  have wf: "wellFormed ?\<sigma>F" "noSkipInto ?\<sigma>F t" "numGradProducersNext (layers ?\<sigma>F t) = int K"
    using inv gF wellFormed_sameGraph [OF gF] noSkipInto_sameGraph [OF gF, of t]
    by (simp_all add: GInv_def graph_def)
  show "hasFired t n0 l ?\<sigma>F" using n0 tr by (simp add: hasFired_def store_simps)
  show "GInv t K n0 ?\<sigma>F"
  proof (cases "l = t")
    case False
    with inv wf n0 tr r3 a3 [of t] show ?thesis
      by (simp add: GInv_def store_simps)
  next
    case True
    from inv eq True have nf: "bwdFires t (drop n0 (trace \<sigma>)) = []"
      and rK: "rcvdBInputs (layers \<sigma> t) = int K" by (auto simp: GInv_def)
    with inv have len: "length (contribs t (drop n0 (trace \<sigma>))) = K"
      and sm: "actGrads (layers \<sigma> t) = sum_list (contribs t (drop n0 (trace \<sigma>)))"
      by (auto simp: GInv_def)
    with inv wf n0 tr r3 a3 [of t] True nf rK show ?thesis
      by (simp add: GInv_def store_simps)
  qed
qed

lemma GInv_step:
  fixes B :: "('m::comm_monoid_add) backend"
  assumes acc: "accumulates B" and inv: "GInv t K n0 \<sigma>" and hf: "hasFired t n0 l \<sigma>"
    and st: "lstep B l \<sigma> \<sigma>'"
  shows "GInv t K n0 \<sigma>' \<and> hasFired t n0 l \<sigma>'"
proof -
  from inv have n0: "n0 \<le> length (trace \<sigma>)" by (simp add: GInv_def)
  have g: "\<forall>x. graph (layers \<sigma>' x) = graph (layers \<sigma> x)" using lstep_graph(1) [OF st] by simp
  have wf: "wellFormed \<sigma>'" "noSkipInto \<sigma>' t" "numGradProducersNext (layers \<sigma>' t) = int K" "1 \<le> K"
    using inv g wellFormed_sameGraph [OF g] noSkipInto_sameGraph [OF g, of t]
    by (simp_all add: GInv_def graph_def)
  from st show ?thesis
  proof (cases rule: lstep.cases)
    case buf
    then have tr: "trace \<sigma>' = trace \<sigma> \<or> trace \<sigma>' = trace \<sigma> @ [EvBpropWeights l]"
      and r: "rcvdBInputs (layers \<sigma>' t) = rcvdBInputs (layers \<sigma> t)"
      and a: "l \<noteq> t \<Longrightarrow> actGrads (layers \<sigma>' t) = actGrads (layers \<sigma> t)"
      by (auto simp: bufStep_def sameCtl_def)
    from tr n0 have ev: "bwdFires t (drop n0 (trace \<sigma>')) = bwdFires t (drop n0 (trace \<sigma>))"
      "contribs t (drop n0 (trace \<sigma>')) = contribs t (drop n0 (trace \<sigma>))"
      "n0 \<le> length (trace \<sigma>')" by auto
    from inv hf wf ev r a show ?thesis by (auto simp: GInv_def hasFired_def)
  next
    case (skip i)
    from writes_into [of \<sigma> t l i] inv skip have qt: "prev (layers \<sigma> l) ! i \<noteq> t"
      by (auto simp: GInv_def)
    with skip have "layers \<sigma>' t = layers \<sigma> t" "trace \<sigma>' = trace \<sigma>"
      by (simp_all add: incRcvdBInputs_def store_simps)
    with inv hf wf show ?thesis by (simp add: GInv_def hasFired_def)
  next
    case (contrib i \<sigma>1)
    let ?q = "prev (layers \<sigma> l) ! i"
    from contrib(5) obtain k c g' where
      s1: "\<sigma>1 = emit (EvGrad k l i ?q c) (updL ?q (\<lambda>x. x\<lparr>actGrads := g'\<rparr>) \<sigma>)"
      and g0: "rcvdBInputs (layers \<sigma> ?q) = 0 \<longrightarrow> g' = c"
      and g1: "0 < rcvdBInputs (layers \<sigma> ?q) \<longrightarrow> g' = actGrads (layers \<sigma> ?q) + c"
      using acc by (auto simp: contributes_def)
    have tr: "trace \<sigma>' = trace \<sigma> @ [EvGrad k l i ?q c]"
      using contrib(1) s1 by (simp add: incRcvdBInputs_def store_simps)
    show ?thesis
    proof (cases "?q = t")
      case False
      with contrib(1) s1 have "layers \<sigma>' t = layers \<sigma> t"
        by (simp add: incRcvdBInputs_def store_simps)
      with inv hf wf tr n0 False show ?thesis by (simp add: GInv_def hasFired_def)
    next
      case True
      with contrib(1) s1 have r: "rcvdBInputs (layers \<sigma>' t) = rcvdBInputs (layers \<sigma> t) + 1"
        and a: "actGrads (layers \<sigma>' t) = g'"
        by (simp_all add: incRcvdBInputs_def store_simps)
      let ?cs = "contribs t (drop n0 (trace \<sigma>))"
      show ?thesis
      proof (cases "bwdFires t (drop n0 (trace \<sigma>)) = []")
        case fired: False
        with inv wf tr n0 True r show ?thesis by (auto simp: GInv_def hasFired_def)
      next
        case nf: True
        with inv have rl: "rcvdBInputs (layers \<sigma> t) = int (length ?cs)"
          and sm: "?cs \<noteq> [] \<longrightarrow> actGrads (layers \<sigma> t) = sum_list ?cs"
          by (simp_all add: GInv_def)
        have "g' = sum_list (?cs @ [c])"
        proof (cases "?cs = []")
          case True
          with rl g0 \<open>?q = t\<close> show ?thesis by simp
        next
          case False
          with rl have "0 < rcvdBInputs (layers \<sigma> t)" by simp
          with g1 sm False \<open>?q = t\<close> show ?thesis by simp
        qed
        with inv hf wf tr n0 True r a nf rl show ?thesis by (simp add: GInv_def hasFired_def)
      qed
    qed
  qed
qed

lemma bprop_GInv:
  fixes B :: "('m::comm_monoid_add) backend"
  assumes "accumulates B"
  shows "final (bprop B n l p \<sigma>) = Some \<sigma>' \<Longrightarrow> GInv t K n0 \<sigma> \<Longrightarrow> GInv t K n0 \<sigma>'"
  by (rule bprop_preserves [where P = "GInv t K n0" and Q = "hasFired t n0" and B = B])
    (auto intro: GInv_call GInv_fire GInv_step [OF assms, THEN conjunct1]
        GInv_step [OF assms, THEN conjunct2])

lemma extends_append: "extends pre \<sigma> \<Longrightarrow> trace \<sigma>' = trace \<sigma> @ es \<Longrightarrow> extends pre \<sigma>'"
  unfolding extends_def
  by (metis append_eq_conv_conj append.assoc append_take_drop_id)

lemma bprop_extends:
  fixes B :: "('m::plus) backend"
  shows "final (bprop B n l p \<sigma>) = Some \<sigma>' \<Longrightarrow> extends pre \<sigma> \<Longrightarrow> extends pre \<sigma>'"
proof (rule bprop_preserves [where P = "extends pre" and Q = "\<lambda>l \<sigma>. True" and B = B])
  fix \<sigma> :: "'m net" and l
  assume "extends pre \<sigma>"
  then show "extends pre (emit (EvBprop l) \<sigma>)"
    by (rule extends_append) (simp add: store_simps)
next
  fix \<sigma> \<sigma>3 :: "'m net" and l
  assume a: "extends pre \<sigma>"
    and fs: "flagStep (updL l (\<lambda>x. x\<lparr>rcvdBInputs := rcvdBInputs x + 1\<rparr>) (emit (EvBprop l) \<sigma>)) \<sigma>3"
  from fs have "trace (emit (EvBpropCommon l (actGrads (layers \<sigma>3 l))) \<sigma>3)
      = trace \<sigma> @ [EvBprop l, EvBpropCommon l (actGrads (layers \<sigma>3 l))]"
    by (simp add: flagStep_def store_simps)
  from extends_append [OF a this]
  show "extends pre (emit (EvBpropCommon l (actGrads (layers \<sigma>3 l))) \<sigma>3) \<and> True" by simp
next
  fix \<sigma> \<sigma>' :: "'m net" and l
  assume a: "extends pre \<sigma>" and st: "lstep B l \<sigma> \<sigma>'"
  from lstep_trace [OF st, of l] obtain es where "trace \<sigma>' = trace \<sigma> @ es" by blast
  from extends_append [OF a this] show "extends pre \<sigma>' \<and> True" by simp
qed

lemma bpropPrev_extends:
  fixes B :: "('m::plus) backend"
  shows "final (bpropPrev B n qs p \<sigma>) = Some \<sigma>' \<Longrightarrow> extends pre \<sigma> \<Longrightarrow> extends pre \<sigma>'"
  by (rule bpropPrev_preserves [where P = "extends pre" and B = B and n = n and p = p])
    (rule bprop_extends)

lemma bpropPrev_CInv:
  fixes B :: "('m::plus) backend"
  shows "final (bpropPrev B n qs p \<sigma>) = Some \<sigma>' \<Longrightarrow> CInv t K n0 \<sigma> \<Longrightarrow> CInv t K n0 \<sigma>'"
  by (rule bpropPrev_preserves [where P = "CInv t K n0" and B = B and n = n and p = p])
    (rule bprop_CInv)

lemma lsteps_extends:
  assumes "(lstep B l)\<^sup>*\<^sup>* \<sigma> \<sigma>'" and "extends pre \<sigma>"
  shows "extends pre \<sigma>'"
  using assms
proof (induction rule: rtranclp_induct)
  case base
  then show ?case by simp
next
  case (step y z)
  from lstep_trace [OF step.hyps(2), of l] obtain es where "trace z = trace y @ es" by blast
  with step show ?case by (auto intro: extends_append)
qed

lemma bprop_fires_now:
  fixes B :: "('m::plus) backend"
  assumes ni: "\<not> inert \<tau> t"
    and eq: "rcvdBInputs (layers \<tau> t) = numGradProducersNext (layers \<tau> t)"
    and fin: "final (bprop B (Suc k) t p \<tau>) = Some \<tau>'"
  shows "take 2 (drop (length (trace \<tau>)) (trace \<tau>'))
           = [EvBprop t, EvBpropCommon t (actGrads (layers \<tau> t))]"
    and "bwdFires t (drop (length (trace \<tau>)) (trace \<tau>')) = [actGrads (layers \<tau> t)]"
proof -
  let ?pre = "trace \<tau> @ [EvBprop t, EvBpropCommon t (actGrads (layers \<tau> t))]"
  let ?K = "numGradProducersNext (layers \<tau> t)"
  let ?n0 = "length (trace \<tau>)"
  from fin have "extends ?pre \<tau>' \<and> CInv t ?K ?n0 \<tau>'"
  proof (cases rule: bprop_Suc_cases)
    case inert
    with ni show ?thesis by simp
  next
    case call
    with eq show ?thesis by simp
  next
    case (fire \<sigma>3 \<sigma>2)
    let ?\<sigma>F = "emit (EvBpropCommon t (actGrads (layers \<sigma>3 t))) \<sigma>3"
    from fire(3) have tr: "trace \<sigma>3 = trace \<tau> @ [EvBprop t]"
      and a3: "actGrads (layers \<sigma>3 t) = actGrads (layers \<tau> t)"
      by (simp_all add: flagStep_def store_simps)
    then have eF: "extends ?pre ?\<sigma>F" by (simp add: extends_def store_simps)
    have "CInv t ?K ?n0 \<tau>" by (simp add: CInv_def)
    from CInv_fire [OF this eq fire(3)] have cF: "CInv t ?K ?n0 ?\<sigma>F" .
    from lsteps_extends [OF fire(4) eF] have e2: "extends ?pre \<sigma>2" .
    from lsteps_preserve [of B t ?\<sigma>F \<sigma>2 "CInv t ?K ?n0" "\<lambda>\<sigma>. True", OF fire(4) cF]
    have c2: "CInv t ?K ?n0 \<sigma>2" by (auto intro: CInv_step)
    from fire(5) show ?thesis
    proof
      assume "\<tau>' = \<sigma>2"
      with e2 c2 show ?thesis by simp
    next
      assume "final (bpropPrev B k (prev (layers \<sigma>2 t)) p \<sigma>2) = Some \<tau>'"
      from bpropPrev_extends [OF this e2] bpropPrev_CInv [OF this c2] show ?thesis by simp
    qed
  qed
  then have ex: "take (length ?pre) (trace \<tau>') = ?pre"
    and len: "length (bwdFires t (drop ?n0 (trace \<tau>'))) \<le> 1"
    by (simp_all add: extends_def CInv_def)
  from ex obtain es where es: "trace \<tau>' = ?pre @ es"
    by (metis append_take_drop_id)
  then show "take 2 (drop ?n0 (trace \<tau>')) = [EvBprop t, EvBpropCommon t (actGrads (layers \<tau> t))]"
    by simp
  from es len show "bwdFires t (drop ?n0 (trace \<tau>')) = [actGrads (layers \<tau> t)]"
    by (cases "bwdFires t es") simp_all
qed

text \<open>
  Claim C2, as amended. Let \<open>t\<close> be any layer and \<open>K\<close> its count of gradient-producing
  successors. After \<^verbatim>\<open>reset()\<close> on \<open>t\<close>, take any sequence of calls of
  \<^verbatim>\<open>bprop(passType)\<close> on any layers. Whenever the run ends, the backward computation of
  \<open>t\<close> has started at most once since the reset, and if it has, the counter of \<open>t\<close> is
  above \<open>K\<close>. The run does end when the fuel exceeds the number of layers that can still
  fire. If \<open>t\<close> is not a cost layer with coefficient 0, a call that finds the counter
  equal to \<open>K\<close> runs the backward computation of \<open>t\<close> exactly once, first thing after the
  call, on the gradient buffer of \<open>t\<close>, and a call that finds the counter different
  from \<open>K\<close> (before it reaches \<open>K\<close>, or after the computation has fired) returns normally
  with every buffer, counter and weight unchanged. A call on a cost layer with
  coefficient 0 returns normally with the store unchanged, whatever its counter.
\<close>

theorem backward_fires_once:
  fixes B :: "('m::plus) backend"
  shows "(\<forall>\<sigma>'. final (backwardRun B n p ls (reset t \<sigma>)) = Some \<sigma>' \<longrightarrow>
            length (bwdFires t (drop (length (trace \<sigma>)) (trace \<sigma>'))) \<le> 1
            \<and> (bwdFires t (drop (length (trace \<sigma>)) (trace \<sigma>')) \<noteq> [] \<longrightarrow>
                 numGradProducersNext (layers \<sigma> t) < rcvdBInputs (layers \<sigma>' t)))
     \<and> (finite A \<and> prevClosed \<sigma> A \<and> set ls \<subseteq> A \<and> card (canFire (reset t \<sigma>) \<inter> A) < n \<longrightarrow>
            final (backwardRun B n p ls (reset t \<sigma>)) \<noteq> None)
     \<and> (\<forall>\<tau> \<tau>' k. \<not> inert \<tau> t
              \<and> rcvdBInputs (layers \<tau> t) = numGradProducersNext (layers \<tau> t)
              \<and> final (bprop B (Suc k) t p \<tau>) = Some \<tau>' \<longrightarrow>
            take 2 (drop (length (trace \<tau>)) (trace \<tau>'))
              = [EvBprop t, EvBpropCommon t (actGrads (layers \<tau> t))]
            \<and> bwdFires t (drop (length (trace \<tau>)) (trace \<tau>')) = [actGrads (layers \<tau> t)])
     \<and> (\<forall>\<tau> k. \<not> inert \<tau> t
              \<and> rcvdBInputs (layers \<tau> t) \<noteq> numGradProducersNext (layers \<tau> t) \<longrightarrow>
            bprop B (Suc k) t p \<tau> = Done (emit (EvBprop t) \<tau>))
     \<and> (\<forall>\<tau> k. inert \<tau> t \<longrightarrow> bprop B (Suc k) t p \<tau> = Done \<tau>)"
proof (intro conjI allI impI)
  fix \<sigma>' assume fin: "final (backwardRun B n p ls (reset t \<sigma>)) = Some \<sigma>'"
  let ?K = "numGradProducersNext (layers \<sigma> t)"
  have "CInv t ?K (length (trace \<sigma>)) (reset t \<sigma>)"
    by (simp add: CInv_def reset_def store_simps)
  with fin have "CInv t ?K (length (trace \<sigma>)) \<sigma>'"
    by (rule backwardRun_preserves [where P = "CInv t ?K (length (trace \<sigma>))" and B = B and n = n
          and p = p and ls = ls, rotated 1]) (rule bprop_CInv)
  then show "length (bwdFires t (drop (length (trace \<sigma>)) (trace \<sigma>'))) \<le> 1"
    and "bwdFires t (drop (length (trace \<sigma>)) (trace \<sigma>')) \<noteq> [] \<Longrightarrow> ?K < rcvdBInputs (layers \<sigma>' t)"
    by (simp_all add: CInv_def)
next
  assume a: "finite A \<and> prevClosed \<sigma> A \<and> set ls \<subseteq> A \<and> card (canFire (reset t \<sigma>) \<inter> A) < n"
  then have "prevClosed (reset t \<sigma>) A" by (simp add: prevClosed_def reset_def store_simps)
  with a backwardRun_total [of A "reset t \<sigma>" ls n B p]
  show "final (backwardRun B n p ls (reset t \<sigma>)) \<noteq> None" by auto
next
  fix \<tau> \<tau>' :: "'m net" and k
  assume a: "\<not> inert \<tau> t \<and> rcvdBInputs (layers \<tau> t) = numGradProducersNext (layers \<tau> t)
             \<and> final (bprop B (Suc k) t p \<tau>) = Some \<tau>'"
  then show "take 2 (drop (length (trace \<tau>)) (trace \<tau>'))
              = [EvBprop t, EvBpropCommon t (actGrads (layers \<tau> t))]"
    by (intro bprop_fires_now(1) [of \<tau> t B k p \<tau>']) simp_all
  from a show "bwdFires t (drop (length (trace \<tau>)) (trace \<tau>')) = [actGrads (layers \<tau> t)]"
    by (intro bprop_fires_now(2) [of \<tau> t B k p \<tau>']) simp_all
next
  fix \<tau> :: "'m net" and k
  assume "\<not> inert \<tau> t \<and> rcvdBInputs (layers \<tau> t) \<noteq> numGradProducersNext (layers \<tau> t)"
  then show "bprop B (Suc k) t p \<tau> = Done (emit (EvBprop t) \<tau>)"
    by (auto simp: inert_def Let_def store_simps)
next
  fix \<tau> :: "'m net" and k
  assume "inert \<tau> t"
  then show "bprop B (Suc k) t p \<tau> = Done \<tau>" by (simp add: inert_def)
qed

text \<open>The claim as stated fails for a cost layer with coefficient 0: in the example
  network with coefficient 0 the cost layer (4) has no gradient-producing successor, so
  \<open>K = 0\<close>, its counter is 0 after the reset, and the backward call that finds the
  counter equal to \<open>K\<close> returns without running the backward computation.\<close>

theorem backward_coeff_zero_counterexample:
  "numGradProducersNext (layers (reset 4 (exNet 0)) 4) = 0
   \<and> rcvdBInputs (layers (reset 4 (exNet 0)) 4) = 0
   \<and> bprop toyBackend (Suc 0) 4 PASS_TRAIN (reset 4 (exNet 0)) = Done (reset 4 (exNet 0))
   \<and> bwdFires 4 (trace (reset 4 (exNet 0))) = []"
  by (simp add: exNet_defs)

lemma exNet1_run:
  "\<exists>\<sigma>'. final (backwardRun toyBackend 4 PASS_TRAIN [4, 3] (reset 3 (exNet 1))) = Some \<sigma>'
       \<and> bwdFires 3 (trace \<sigma>') \<noteq> [] \<and> rcvdBInputs (layers \<sigma>' 3) = 2"
  by (simp add: eval_nat_numeral Layer_bprop_body_def bpropCommon_def bpropActs_defs doWork_def
      doLogregGrad_def getNext_def getPrev_def getType_def getRcvdBInputs_def incRcvdBInputs_def
      isGradConsumer_def bpropWeights_def FCLayer_bpropWeights_def truncBwdActs_def
      Layer_truncBwdActs_def exNet_defs)

theorem backward_fires_once_witness:
  "(case final (backwardRun toyBackend 4 PASS_TRAIN [4, 3] (reset 3 (exNet 1))) of
      None \<Rightarrow> False
    | Some \<sigma>' \<Rightarrow> length (bwdFires 3 (trace \<sigma>')) = 1 \<and> 1 < rcvdBInputs (layers \<sigma>' 3))"
proof -
  from exNet1_run obtain \<sigma>' where
    f: "final (backwardRun toyBackend 4 PASS_TRAIN [4, 3] (reset 3 (exNet 1))) = Some \<sigma>'"
    and nz: "bwdFires 3 (trace \<sigma>') \<noteq> []" by blast
  have h: "trace (exNet 1) = []" "numGradProducersNext (layers (exNet 1) 3) = 1"
    by (simp_all add: exNet_defs)
  from backward_fires_once [where B = toyBackend and n = 4 and p = PASS_TRAIN and ls = "[4, 3]"
      and t = 3 and \<sigma> = "exNet 1"] f
  have "length (bwdFires 3 (drop (length (trace (exNet 1))) (trace \<sigma>'))) \<le> 1
        \<and> (bwdFires 3 (drop (length (trace (exNet 1))) (trace \<sigma>')) \<noteq> [] \<longrightarrow>
             numGradProducersNext (layers (exNet 1) 3) < rcvdBInputs (layers \<sigma>' 3))"
    by blast
  with h nz f show ?thesis by (cases "bwdFires 3 (trace \<sigma>')") simp_all
qed


section \<open>The graph is the same after every call\<close>

lemma sameClass_refl [simp]: "sameClass \<sigma> \<sigma>"
  by (simp add: sameClass_def)

lemma sameClass_trans: "sameClass \<sigma> \<sigma>' \<Longrightarrow> sameClass \<sigma>' \<sigma>'' \<Longrightarrow> sameClass \<sigma> \<sigma>''"
  by (simp add: sameClass_def)

lemma sameGraph_sameClass: "sameGraph \<sigma> \<sigma>' \<Longrightarrow> sameClass \<sigma> \<sigma>'"
  by (simp add: sameGraph_def sameClass_def graph_def)

lemma sameCtl_sameGraph: "sameCtl \<sigma> \<sigma>' \<Longrightarrow> sameGraph \<sigma> \<sigma>'"
  by (simp add: sameCtl_def sameGraph_def)

lemma sameGraph_emit [simp]: "sameGraph \<sigma> (emit e \<sigma>') = sameGraph \<sigma> \<sigma>'"
  by (simp add: sameGraph_def store_simps)

lemma sameGraph_counter:
  "sameGraph \<sigma> \<sigma>' \<Longrightarrow> sameGraph \<sigma> (updL l (\<lambda>x. x\<lparr>rcvdFInputs := f x\<rparr>) \<sigma>')"
  "sameGraph \<sigma> \<sigma>' \<Longrightarrow> sameGraph \<sigma> (updL l (\<lambda>x. x\<lparr>rcvdBInputs := g x\<rparr>) \<sigma>')"
  by (simp_all add: sameGraph_def store_simps graph_def)

lemma Layer_fprop_body_sameGraph:
  assumes "final (Layer_fprop_body B l v p \<sigma>) = Some \<sigma>'"
  shows "sameGraph \<sigma> \<sigma>'"
proof -
  from Layer_fprop_body_frame [OF assms]
  consider "\<sigma>' = \<sigma>" | "sameCtl (updL l (\<lambda>x. x\<lparr>rcvdFInputs := int (length (prev x))\<rparr>) \<sigma>) \<sigma>'"
    by blast
  then show ?thesis
  proof cases
    case 1
    then show ?thesis by simp
  next
    case 2
    have "sameGraph \<sigma> (updL l (\<lambda>x. x\<lparr>rcvdFInputs := int (length (prev x))\<rparr>) \<sigma>)"
      by (rule sameGraph_counter) simp
    with sameCtl_sameGraph [OF 2] show ?thesis by (blast intro: sameGraph_trans)
  qed
qed

lemma fpropNext_sameGraph_from:
  assumes "\<And>l \<sigma> \<sigma>'. final (fprop B n l p \<sigma>) = Some \<sigma>' \<Longrightarrow> sameGraph \<sigma> \<sigma>'"
  shows "final (fpropNext B n ls p \<sigma>) = Some \<sigma>' \<Longrightarrow> sameGraph \<sigma> \<sigma>'"
proof (induction ls arbitrary: \<sigma>)
  case Nil
  then show ?case by simp
next
  case (Cons x xs)
  show ?case
  proof (cases "fprop B n x p \<sigma>")
    case (Done \<sigma>1)
    with Cons.prems have "final (fpropNext B n xs p \<sigma>1) = Some \<sigma>'" by simp
    from Cons.IH [OF this] assms [of x \<sigma> \<sigma>1] Done show ?thesis
      by (auto intro: sameGraph_trans)
  next
    case (Raised e \<sigma>1)
    with Cons.prems assms [of x \<sigma> \<sigma>1] show ?thesis by simp
  next
    case OutOfFuel
    with Cons.prems show ?thesis by simp
  qed
qed

lemma fprop_sameGraph: "final (fprop B n l p \<sigma>) = Some \<sigma>' \<Longrightarrow> sameGraph \<sigma> \<sigma>'"
proof (induction n arbitrary: l \<sigma> \<sigma>')
  case 0
  then show ?case by simp
next
  case (Suc n)
  let ?\<sigma>1 = "updL l (\<lambda>x. x\<lparr>rcvdFInputs := rcvdFInputs x + 1\<rparr>) (emit (EvFprop l) \<sigma>)"
  have g1: "sameGraph \<sigma> ?\<sigma>1" by (rule sameGraph_counter) simp
  have nx: "final (fpropNext B n ls p \<tau>) = Some \<tau>' \<Longrightarrow> sameGraph \<tau> \<tau>'" for ls \<tau> \<tau>'
    by (rule fpropNext_sameGraph_from [where B = B and n = n and p = p]) (rule Suc.IH)
  show ?case
  proof (cases "kind (layers \<sigma> l) = DataLayer")
    case True
    with Suc.prems show ?thesis by simp
  next
    case nd: False
    show ?thesis
    proof (cases "rcvdFInputs (layers ?\<sigma>1 l) = int (length (prev (layers ?\<sigma>1 l)))")
      case False
      with nd Suc.prems have "\<sigma>' = ?\<sigma>1" by (simp add: Let_def)
      with g1 show ?thesis by simp
    next
      case True
      let ?r = "Layer_fprop_body B l (map ActsOf (prev (layers ?\<sigma>1 l))) p ?\<sigma>1"
      from nd True Suc.prems have a: "final (case ?r of
          Done \<sigma>2 \<Rightarrow> fpropNext B n (next (layers \<sigma>2 l)) p \<sigma>2 | r \<Rightarrow> r) = Some \<sigma>'"
        by (simp add: Let_def)
      show ?thesis
      proof (cases ?r)
        case (Done \<sigma>2)
        then have "final ?r = Some \<sigma>2" by simp
        from Layer_fprop_body_sameGraph [OF this] have "sameGraph ?\<sigma>1 \<sigma>2" .
        moreover from a Done have "sameGraph \<sigma>2 \<sigma>'" by (auto intro: nx)
        ultimately show ?thesis using g1 by (blast intro: sameGraph_trans)
      next
        case (Raised e \<sigma>2)
        then have "final ?r = Some \<sigma>2" by simp
        from Layer_fprop_body_sameGraph [OF this] Raised a g1 show ?thesis
          by (auto intro: sameGraph_trans)
      next
        case OutOfFuel
        with a show ?thesis by simp
      qed
    qed
  qed
qed

lemma fpropNext_sameGraph: "final (fpropNext B n ls p \<sigma>) = Some \<sigma>' \<Longrightarrow> sameGraph \<sigma> \<sigma>'"
  by (rule fpropNext_sameGraph_from [where B = B and n = n and p = p]) (rule fprop_sameGraph)

lemma fprop_v_sameGraph:
  assumes "final (fprop_v B n l v p \<sigma>) = Some \<sigma>'"
  shows "sameGraph \<sigma> \<sigma>'"
proof -
  let ?r = "if kind (layers \<sigma> l) = DataLayer then fpropActs B l v p \<sigma>
            else Layer_fprop_body B l v p \<sigma>"
  have g: "sameGraph \<sigma> \<tau>" if "final ?r = Some \<tau>" for \<tau>
  proof (cases "kind (layers \<sigma> l) = DataLayer")
    case True
    with that fpropActs_frame [of B l v p \<sigma> \<tau>] show ?thesis by (simp add: sameCtl_sameGraph)
  next
    case False
    with that Layer_fprop_body_sameGraph [of B l v p \<sigma> \<tau>] show ?thesis by simp
  qed
  from assms have a: "final (case ?r of
      Done \<sigma>1 \<Rightarrow> fpropNext B n (next (layers \<sigma>1 l)) p \<sigma>1 | r \<Rightarrow> r) = Some \<sigma>'"
    by (simp add: fprop_v_def)
  show ?thesis
  proof (cases ?r)
    case (Done \<sigma>1)
    with g [of \<sigma>1] have "sameGraph \<sigma> \<sigma>1" by simp
    moreover from a Done have "sameGraph \<sigma>1 \<sigma>'" by (auto intro: fpropNext_sameGraph)
    ultimately show ?thesis by (rule sameGraph_trans)
  next
    case (Raised e \<sigma>1)
    with g [of \<sigma>1] a show ?thesis by simp
  next
    case OutOfFuel
    with a show ?thesis by simp
  qed
qed

lemma bprop_sameGraph:
  fixes B :: "('m::plus) backend"
  shows "final (bprop B n l p \<sigma>) = Some \<sigma>' \<Longrightarrow> sameGraph \<sigma>0 \<sigma> \<Longrightarrow> sameGraph \<sigma>0 \<sigma>'"
proof (rule bprop_preserves [where P = "sameGraph \<sigma>0" and Q = "\<lambda>l \<sigma>. True" and B = B])
  fix \<sigma> :: "'m net" and l
  assume "sameGraph \<sigma>0 \<sigma>"
  then show "sameGraph \<sigma>0 (emit (EvBprop l) \<sigma>)" by simp
next
  fix \<sigma> \<sigma>3 :: "'m net" and l
  assume a: "sameGraph \<sigma>0 \<sigma>"
    and fs: "flagStep (updL l (\<lambda>x. x\<lparr>rcvdBInputs := rcvdBInputs x + 1\<rparr>) (emit (EvBprop l) \<sigma>)) \<sigma>3"
  from a have "sameGraph \<sigma>0 (updL l (\<lambda>x. x\<lparr>rcvdBInputs := rcvdBInputs x + 1\<rparr>) (emit (EvBprop l) \<sigma>))"
    by (intro sameGraph_counter) simp
  moreover from fs have "sameGraph (updL l (\<lambda>x. x\<lparr>rcvdBInputs := rcvdBInputs x + 1\<rparr>) (emit (EvBprop l) \<sigma>)) \<sigma>3"
    by (simp add: flagStep_def sameCtl_sameGraph)
  ultimately have "sameGraph \<sigma>0 \<sigma>3" by (rule sameGraph_trans)
  then show "sameGraph \<sigma>0 (emit (EvBpropCommon l (actGrads (layers \<sigma>3 l))) \<sigma>3) \<and> True" by simp
next
  fix \<sigma> \<sigma>' :: "'m net" and l
  assume a: "sameGraph \<sigma>0 \<sigma>" and st: "lstep B l \<sigma> \<sigma>'"
  from lstep_graph(1) [OF st] have "sameGraph \<sigma> \<sigma>'" by (simp add: sameGraph_def)
  with a show "sameGraph \<sigma>0 \<sigma>' \<and> True" by (auto intro: sameGraph_trans)
qed

lemma bpropPrev_sameGraph:
  fixes B :: "('m::plus) backend"
  shows "final (bpropPrev B n qs p \<sigma>) = Some \<sigma>' \<Longrightarrow> sameGraph \<sigma>0 \<sigma> \<Longrightarrow> sameGraph \<sigma>0 \<sigma>'"
  by (rule bpropPrev_preserves [where P = "sameGraph \<sigma>0" and B = B and n = n and p = p])
    (rule bprop_sameGraph)

lemma Layer_bprop_body_sameGraph:
  fixes B :: "('m::plus) backend"
  assumes "final (Layer_bprop_body B l (ActGradsOf l) p \<sigma>) = Some \<sigma>'"
  shows "sameGraph \<sigma> \<sigma>'"
proof -
  from Layer_bprop_body_steps [OF assms] obtain \<sigma>3 where
    fs: "flagStep \<sigma> \<sigma>3"
    and ls: "(lstep B l)\<^sup>*\<^sup>* (emit (EvBpropCommon l (actGrads (layers \<sigma>3 l))) \<sigma>3) \<sigma>'" by blast
  from fs have "sameGraph \<sigma> (emit (EvBpropCommon l (actGrads (layers \<sigma>3 l))) \<sigma>3)"
    by (simp add: flagStep_def sameCtl_sameGraph)
  with lsteps_canFire(2) [OF ls] show ?thesis by (blast intro: sameGraph_trans)
qed

lemma sameCtl_fold_transpose2 [simp]:
  "sameCtl \<sigma> (fold (\<lambda>q s. transpose b (ActGradsOf q) (transpose b (ActsOf q) s)) qs \<sigma>')
   = sameCtl \<sigma> \<sigma>'"
  by (induction qs arbitrary: \<sigma>') (simp_all del: transpose.simps)

lemma bpropActs_loop_sameGraph:
  fixes B :: "('m::plus) backend"
  shows "\<forall>i\<in>set is. i < length (prev (layers \<sigma> l)) \<Longrightarrow>
         final (bpropActs_loop B l v p is \<sigma>) = Some \<sigma>' \<Longrightarrow> sameGraph \<sigma> \<sigma>'"
proof (induction "is" arbitrary: \<sigma>)
  case Nil
  then show ?case by simp
next
  case (Cons i "is")
  let ?q = "prev (layers \<sigma> l) ! i"
  from Cons.prems have il: "i < length (prev (layers \<sigma> l))" by simp
  have rest: "sameGraph \<sigma> \<sigma>'"
    if g: "sameGraph \<sigma> \<sigma>1" and f: "final (bpropActs_loop B l v p is \<sigma>1) = Some \<sigma>'" for \<sigma>1
  proof -
    from g have "prev (layers \<sigma>1 l) = prev (layers \<sigma> l)" by (simp add: sameGraph_def graph_def)
    with Cons.prems have "\<forall>i\<in>set is. i < length (prev (layers \<sigma>1 l))" by simp
    from Cons.IH [OF this f] g show ?thesis by (blast intro: sameGraph_trans)
  qed
  show ?case
  proof (cases "isGradConsumer \<sigma> ?q")
    case False
    with Cons.prems have "final (bpropActs_loop B l v p is \<sigma>) = Some \<sigma>'" by (simp add: Let_def)
    from rest [OF _ this] show ?thesis by simp
  next
    case True
    show ?thesis
    proof (cases "bpropActs B l v i p \<sigma>")
      case (Done \<sigma>1)
      with True Cons.prems have f: "final (bpropActs_loop B l v p is (incRcvdBInputs ?q \<sigma>1)) = Some \<sigma>'"
        by (simp add: Let_def)
      from bpropActs_effect [OF Done il] have "sameGraph \<sigma> (incRcvdBInputs ?q \<sigma>1)"
        by (auto simp: contributes_def incRcvdBInputs_def store_simps sameGraph_def graph_def)
      from rest [OF this f] show ?thesis .
    next
      case (Raised e \<sigma>1)
      with True Cons.prems bpropActs_Raised [OF Raised] show ?thesis by (simp add: Let_def)
    next
      case OutOfFuel
      with bpropActs_not_OutOfFuel show ?thesis by blast
    qed
  qed
qed

lemma sameGraph_assign [simp]: "sameGraph \<sigma> (assign r m \<sigma>') = sameGraph \<sigma> \<sigma>'"
  by (cases r) (auto simp: sameGraph_def store_simps graph_def)

lemma sameGraph_updL:
  "graph (f (layers \<sigma>' l)) = graph (layers \<sigma>' l) \<Longrightarrow> sameGraph \<sigma> (updL l f \<sigma>') = sameGraph \<sigma> \<sigma>'"
  by (auto simp: sameGraph_def store_simps)

lemma bpropWeights_sameGraph:
  assumes "final (bpropWeights B l v p \<sigma>) = Some \<sigma>'"
  shows "sameGraph \<sigma> \<sigma>'"
proof -
  consider (fc) "kind (layers \<sigma> l) = FCLayer" | (conv) "kind (layers \<sigma> l) = ConvLayer"
    | (other) "kind (layers \<sigma> l) \<noteq> FCLayer" "kind (layers \<sigma> l) \<noteq> ConvLayer" by blast
  then show ?thesis
  proof cases
    case fc
    let ?\<sigma>b = "updL l (\<lambda>x. x\<lparr>biases := (biases x)\<lparr>getGrads := sumAxis B 0 (deref \<sigma> v)\<rparr>\<rparr>) \<sigma>"
    from fc assms have "final (FCLayer_bpropWeights_loop B l v p
        [0..<length (prev (layers \<sigma> l))] ?\<sigma>b) = Some \<sigma>'"
      by (simp add: bpropWeights_def FCLayer_bpropWeights_def)
    from FCLayer_bpropWeights_loop_frame [OF this] have "sameGraph ?\<sigma>b \<sigma>'"
      by (simp add: sameCtl_sameGraph)
    moreover have "sameGraph \<sigma> ?\<sigma>b" by (simp add: sameGraph_updL graph_def)
    ultimately show ?thesis by (blast intro: sameGraph_trans)
  next
    case conv
    with assms show ?thesis
      by (auto simp: bpropWeights_def ConvLayer_bpropWeights_def Let_def sameGraph_updL graph_def
          split: if_splits)
  next
    case other
    with assms show ?thesis by (auto simp: bpropWeights_def)
  qed
qed

lemma Layer_bprop_body_sameGraph_v:
  fixes B :: "('m::plus) backend"
  assumes "final (Layer_bprop_body B l v p \<sigma>) = Some \<sigma>'"
  shows "sameGraph \<sigma> \<sigma>'"
proof -
  let ?t = "transL (layers \<sigma> l)"
  let ?\<sigma>3 = "transpose ?t (ActsOf l)
               (fold (\<lambda>q s. transpose ?t (ActGradsOf q) (transpose ?t (ActsOf q) s))
                  (prev (layers \<sigma> l)) (transpose ?t v \<sigma>))"
  let ?\<sigma>4 = "bpropCommon B l v p (emit (EvBpropCommon l (deref ?\<sigma>3 v)) ?\<sigma>3)"
  let ?loop = "if isGradProducer ?\<sigma>4 l
               then bpropActs_loop B l v p [0..<length (prev (layers ?\<sigma>4 l))] ?\<sigma>4 else Done ?\<sigma>4"
  have "sameCtl \<sigma> ?\<sigma>3" by (simp del: transpose.simps)
  then have g4: "sameGraph \<sigma> ?\<sigma>4"
    by (simp add: bpropCommon_def sameCtl_sameGraph)
  have body: "Layer_bprop_body B l v p \<sigma> =
      (case ?loop of
         Done \<sigma>5 \<Rightarrow> (case bpropWeights B l v p (emit (EvBpropWeights l) \<sigma>5) of
                       Done \<sigma>6 \<Rightarrow> Done (truncBwdActs B l \<sigma>6) | r \<Rightarrow> r)
       | r \<Rightarrow> r)"
    by (simp add: Layer_bprop_body_def Let_def del: transpose.simps)
  have loop_g: "sameGraph ?\<sigma>4 \<sigma>5" if "final ?loop = Some \<sigma>5" for \<sigma>5
  proof (cases "isGradProducer ?\<sigma>4 l")
    case True
    with that have "final (bpropActs_loop B l v p [0..<length (prev (layers ?\<sigma>4 l))] ?\<sigma>4) = Some \<sigma>5"
      by simp
    from bpropActs_loop_sameGraph [OF _ this] show ?thesis by simp
  next
    case False
    with that show ?thesis by simp
  qed
  have w_g: "sameGraph \<sigma>5 \<sigma>6" if "final (bpropWeights B l v p (emit (EvBpropWeights l) \<sigma>5)) = Some \<sigma>6"
    for \<sigma>5 \<sigma>6
    using bpropWeights_sameGraph [OF that] by (simp add: sameGraph_def store_simps)
  have t_g: "sameGraph \<sigma>6 (truncBwdActs B l \<sigma>6)" for \<sigma>6
    using bufStep_truncBwdActs [of l \<sigma>6 B] by (simp add: bufStep_def sameCtl_sameGraph)
  have "sameGraph ?\<sigma>4 \<sigma>'"
  proof (cases ?loop)
    case (Done \<sigma>5)
    then have l5: "sameGraph ?\<sigma>4 \<sigma>5" using loop_g by simp
    show ?thesis
    proof (cases "bpropWeights B l v p (emit (EvBpropWeights l) \<sigma>5)")
      case w: (Done \<sigma>6)
      with Done assms body have e: "\<sigma>' = truncBwdActs B l \<sigma>6" by simp
      from w have "sameGraph \<sigma>5 \<sigma>6" by (intro w_g) simp
      with l5 t_g [of \<sigma>6] e show ?thesis by (blast intro: sameGraph_trans)
    next
      case w: (Raised e \<sigma>6)
      with Done assms body have e: "\<sigma>' = \<sigma>6" by simp
      from w have "sameGraph \<sigma>5 \<sigma>6" by (intro w_g) simp
      with l5 e show ?thesis by (blast intro: sameGraph_trans)
    next
      case OutOfFuel
      with Done assms body show ?thesis by simp
    qed
  next
    case (Raised e \<sigma>5)
    with assms body have "\<sigma>' = \<sigma>5" by simp
    with Raised loop_g show ?thesis by simp
  next
    case OutOfFuel
    with assms body show ?thesis by simp
  qed
  with g4 show ?thesis by (blast intro: sameGraph_trans)
qed

lemma bprop_v_sameGraph:
  fixes B :: "('m::plus) backend"
  assumes "final (bprop_v B n l v p \<sigma>) = Some \<sigma>'"
  shows "sameGraph \<sigma> \<sigma>'"
proof -
  let ?r = "Layer_bprop_body B l v p \<sigma>"
  from assms have a: "final (case ?r of
      Done \<sigma>1 \<Rightarrow> (if isGradProducer \<sigma>1 l then bpropPrev B n (prev (layers \<sigma>1 l)) p \<sigma>1 else Done \<sigma>1)
    | r \<Rightarrow> r) = Some \<sigma>'"
    by (simp add: bprop_v_def)
  show ?thesis
  proof (cases ?r)
    case (Done \<sigma>1)
    then have "final ?r = Some \<sigma>1" by simp
    from Layer_bprop_body_sameGraph_v [OF this] have g1: "sameGraph \<sigma> \<sigma>1" .
    show ?thesis
    proof (cases "isGradProducer \<sigma>1 l")
      case True
      with a Done have "final (bpropPrev B n (prev (layers \<sigma>1 l)) p \<sigma>1) = Some \<sigma>'" by simp
      from bpropPrev_sameGraph [OF this g1] show ?thesis .
    next
      case False
      with a Done g1 show ?thesis by simp
    qed
  next
    case (Raised e \<sigma>1)
    then have "final ?r = Some \<sigma>1" by simp
    from Layer_bprop_body_sameGraph_v [OF this] Raised a show ?thesis by simp
  next
    case OutOfFuel
    with a show ?thesis by simp
  qed
qed

lemma ended_sameClass:
  assumes "\<And>\<sigma>'. final r = Some \<sigma>' \<Longrightarrow> sameGraph \<sigma> \<sigma>'"
  shows "sameClass \<sigma> (ended \<sigma> r)"
  using assms by (cases "final r") (simp_all add: ended_def sameGraph_sameClass)

lemma perform_sameClass:
  fixes B :: "('m::plus) backend"
  shows "sameClass \<sigma> (perform B c \<sigma>)"
proof (cases c)
  case (MAddNext a b)
  then show ?thesis by (simp add: sameClass_def addNext_def store_simps)
next
  case (MAddPrev b a)
  then show ?thesis by (simp add: sameClass_def addPrev_def store_simps)
next
  case (MAddEdge a b)
  then show ?thesis by (simp add: sameClass_def addEdge_def addNext_def addPrev_def store_simps)
next
  case (MReset l)
  then show ?thesis by (simp add: sameClass_def reset_def store_simps)
next
  case (MFprop n l p)
  then show ?thesis by (simp add: ended_sameClass fprop_sameGraph)
next
  case (MFpropV n l v p)
  then show ?thesis by (simp add: ended_sameClass fprop_v_sameGraph)
next
  case (MFprop1 n l v p)
  then show ?thesis by (simp add: ended_sameClass fprop_1_def fprop_v_sameGraph)
next
  case (MBprop n l p)
  have "sameGraph \<sigma> \<sigma>'" if "final (bprop B n l p \<sigma>) = Some \<sigma>'" for \<sigma>'
    using bprop_sameGraph [OF that, of \<sigma>] by simp
  with MBprop show ?thesis by (simp add: ended_sameClass)
next
  case (MBpropV n l v p)
  then show ?thesis by (simp add: ended_sameClass bprop_v_sameGraph)
qed

lemma lifetime_sameClass:
  fixes B :: "('m::plus) backend"
  shows "sameClass \<sigma> (lifetime B cs \<sigma>)"
proof (induction cs arbitrary: \<sigma>)
  case Nil
  show ?case by (simp add: lifetime_def)
next
  case (Cons c cs)
  from perform_sameClass [of \<sigma> B c] Cons [of "perform B c \<sigma>"] show ?case
    by (auto simp: lifetime_def intro: sameClass_trans)
qed

section \<open>Who writes into a gradient buffer\<close>

lemma wcontribs_append [simp]: "wcontribs t (tr @ tr') = wcontribs t tr @ wcontribs t tr'"
  by (induction t tr rule: wcontribs.induct) simp_all

lemma contribs_wcontribs: "contribs t tr = map snd (wcontribs t tr)"
  by (induction t tr rule: wcontribs.induct) simp_all

lemma writesBy_refl [simp]: "writesBy l t m \<sigma> \<sigma>"
  by (simp add: writesBy_def)

lemma writesBy_trans:
  assumes "writesBy l t m \<sigma> \<sigma>1" and "writesBy l t m' \<sigma>1 \<sigma>2"
  shows "writesBy l t (m + m') \<sigma> \<sigma>2"
proof -
  from assms obtain es es' where
    a: "trace \<sigma>1 = trace \<sigma> @ es" "\<forall>s. bwdFires s es = []"
       "\<forall>w\<in>set (wcontribs t es). fst w = l" "length (wcontribs t es) \<le> m"
    and b: "trace \<sigma>2 = trace \<sigma>1 @ es'" "\<forall>s. bwdFires s es' = []"
       "\<forall>w\<in>set (wcontribs t es'). fst w = l" "length (wcontribs t es') \<le> m'"
    unfolding writesBy_def by blast
  have "trace \<sigma>2 = trace \<sigma> @ (es @ es')" using a(1) b(1) by simp
  moreover have "\<forall>s. bwdFires s (es @ es') = []" using a(2) b(2) by simp
  moreover have "\<forall>w\<in>set (wcontribs t (es @ es')). fst w = l" using a(3) b(3) by auto
  moreover have "length (wcontribs t (es @ es')) \<le> m + m'" using a(4) b(4) by simp
  ultimately show ?thesis unfolding writesBy_def by blast
qed

lemma writesBy_mono: "writesBy l t m \<sigma> \<sigma>' \<Longrightarrow> m \<le> m' \<Longrightarrow> writesBy l t m' \<sigma> \<sigma>'"
  unfolding writesBy_def by (meson order_trans)

lemma writesBy_0_trans:
  "writesBy l t 0 \<sigma> \<sigma>1 \<Longrightarrow> writesBy l t m \<sigma>1 \<sigma>2 \<Longrightarrow> writesBy l t m \<sigma> \<sigma>2"
  using writesBy_trans [of l t 0 \<sigma> \<sigma>1 m \<sigma>2] by simp

lemma writesBy_trans_0:
  "writesBy l t m \<sigma> \<sigma>1 \<Longrightarrow> writesBy l t 0 \<sigma>1 \<sigma>2 \<Longrightarrow> writesBy l t m \<sigma> \<sigma>2"
  using writesBy_trans [of l t m \<sigma> \<sigma>1 0 \<sigma>2] by simp

lemma bufStep_writesBy: "bufStep l \<sigma> \<sigma>' \<Longrightarrow> writesBy l t 0 \<sigma> \<sigma>'"
  by (auto simp: bufStep_def writesBy_def)

lemma flagStep_writesBy: "flagStep \<sigma> \<sigma>' \<Longrightarrow> writesBy l t 0 \<sigma> \<sigma>'"
  by (auto simp: flagStep_def writesBy_def)

lemma contributes_writesBy:
  assumes "contributes B \<sigma> l i \<sigma>1"
  shows "writesBy l t (if prev (layers \<sigma> l) ! i = t then 1 else 0) \<sigma>
           (incRcvdBInputs (prev (layers \<sigma> l) ! i) \<sigma>1)"
    and "sameGraph \<sigma> (incRcvdBInputs (prev (layers \<sigma> l) ! i) \<sigma>1)"
  using assms
  by (auto simp: contributes_def writesBy_def incRcvdBInputs_def store_simps sameGraph_def graph_def)

lemma count_positions: "length (filter (\<lambda>i. xs ! i = t) [0..<length xs]) = count_list xs t"
proof (induction xs rule: rev_induct)
  case Nil
  show ?case by simp
next
  case (snoc x xs)
  have "filter (\<lambda>i. (xs @ [x]) ! i = t) [0..<length xs] = filter (\<lambda>i. xs ! i = t) [0..<length xs]"
    by (rule filter_cong) (simp_all add: nth_append)
  with snoc show ?case by simp
qed

lemma bpropActs_loop_writesBy:
  fixes B :: "('m::plus) backend"
  shows "\<forall>i\<in>set is. i < length (prev (layers \<sigma> l)) \<Longrightarrow>
         final (bpropActs_loop B l v p is \<sigma>) = Some \<sigma>' \<Longrightarrow>
         writesBy l t (length (filter (\<lambda>i. prev (layers \<sigma> l) ! i = t) is)) \<sigma> \<sigma>'"
proof (induction "is" arbitrary: \<sigma>)
  case Nil
  then show ?case by simp
next
  case (Cons i "is")
  let ?q = "prev (layers \<sigma> l) ! i"
  let ?m = "length (filter (\<lambda>i. prev (layers \<sigma> l) ! i = t) is)"
  from Cons.prems have il: "i < length (prev (layers \<sigma> l))" by simp
  have rest: "writesBy l t ?m \<sigma>1 \<sigma>'"
    if g: "sameGraph \<sigma> \<sigma>1" and f: "final (bpropActs_loop B l v p is \<sigma>1) = Some \<sigma>'" for \<sigma>1
  proof -
    from g have pe: "prev (layers \<sigma>1 l) = prev (layers \<sigma> l)" by (simp add: sameGraph_def graph_def)
    with Cons.prems have "\<forall>i\<in>set is. i < length (prev (layers \<sigma>1 l))" by simp
    from Cons.IH [OF this f] pe show ?thesis by simp
  qed
  show ?case
  proof (cases "isGradConsumer \<sigma> ?q")
    case False
    with Cons.prems have "final (bpropActs_loop B l v p is \<sigma>) = Some \<sigma>'" by (simp add: Let_def)
    from rest [OF _ this] have "writesBy l t ?m \<sigma> \<sigma>'" by simp
    then show ?thesis by (cases "?q = t") (auto intro: writesBy_mono)
  next
    case True
    show ?thesis
    proof (cases "bpropActs B l v i p \<sigma>")
      case (Done \<sigma>1)
      with True Cons.prems have f: "final (bpropActs_loop B l v p is (incRcvdBInputs ?q \<sigma>1)) = Some \<sigma>'"
        by (simp add: Let_def)
      from bpropActs_effect [OF Done il]
      have "writesBy l t (if ?q = t then 1 else 0) \<sigma> (incRcvdBInputs ?q \<sigma>1)
            \<and> sameGraph \<sigma> (incRcvdBInputs ?q \<sigma>1)"
      proof
        assume "writesNothing \<sigma> l i \<and> \<sigma>1 = \<sigma>"
        then show ?thesis
          by (simp add: writesBy_def incRcvdBInputs_def store_simps sameGraph_def graph_def)
      next
        assume "\<not> writesNothing \<sigma> l i \<and> contributes B \<sigma> l i \<sigma>1"
        with contributes_writesBy(1) [of B \<sigma> l i \<sigma>1 t] contributes_writesBy(2) [of B \<sigma> l i \<sigma>1]
        show ?thesis by simp
      qed
      then have w1: "writesBy l t (if ?q = t then 1 else 0) \<sigma> (incRcvdBInputs ?q \<sigma>1)"
        and g1: "sameGraph \<sigma> (incRcvdBInputs ?q \<sigma>1)" by simp_all
      from writesBy_trans [OF w1 rest [OF g1 f]]
      have "writesBy l t ((if ?q = t then 1 else 0) + ?m) \<sigma> \<sigma>'" .
      then show ?thesis by (cases "?q = t") simp_all
    next
      case (Raised e \<sigma>1)
      with True Cons.prems bpropActs_Raised [OF Raised] show ?thesis by (simp add: Let_def)
    next
      case OutOfFuel
      with bpropActs_not_OutOfFuel show ?thesis by blast
    qed
  qed
qed

lemma Layer_bprop_body_writesBy:
  fixes B :: "('m::plus) backend"
  assumes "final (Layer_bprop_body B l (ActGradsOf l) p \<sigma>) = Some \<sigma>'"
  shows "\<exists>\<sigma>F g. trace \<sigma>F = trace \<sigma> @ [EvBpropCommon l g] \<and>
           writesBy l t (if gradProducer (layers \<sigma> l) then count_list (prev (layers \<sigma> l)) t else 0) \<sigma>F \<sigma>'"
proof -
  let ?t = "transL (layers \<sigma> l)"
  let ?v = "ActGradsOf l"
  let ?\<sigma>3 = "transpose ?t (ActsOf l)
               (fold (\<lambda>q s. transpose ?t (ActGradsOf q) (transpose ?t (ActsOf q) s))
                  (prev (layers \<sigma> l)) (transpose ?t ?v \<sigma>))"
  let ?\<sigma>F = "emit (EvBpropCommon l (actGrads (layers ?\<sigma>3 l))) ?\<sigma>3"
  let ?\<sigma>4 = "bpropCommon B l ?v p ?\<sigma>F"
  let ?loop = "if isGradProducer ?\<sigma>4 l
               then bpropActs_loop B l ?v p [0..<length (prev (layers ?\<sigma>4 l))] ?\<sigma>4 else Done ?\<sigma>4"
  let ?m = "if gradProducer (layers \<sigma> l) then count_list (prev (layers \<sigma> l)) t else 0"
  have fs: "flagStep \<sigma> ?\<sigma>3" by (simp del: transpose.simps)
  then have trF: "trace ?\<sigma>F = trace \<sigma> @ [EvBpropCommon l (actGrads (layers ?\<sigma>3 l))]"
    by (simp add: flagStep_def store_simps)
  have b4: "bufStep l ?\<sigma>F ?\<sigma>4" by (rule bufStep_bpropCommon)
  from fs b4 have g4: "graph (layers ?\<sigma>4 l) = graph (layers \<sigma> l)"
    by (simp add: flagStep_def bufStep_def sameCtl_def store_simps)
  have body: "Layer_bprop_body B l ?v p \<sigma> =
      (case ?loop of
         Done \<sigma>5 \<Rightarrow> (case bpropWeights B l ?v p (emit (EvBpropWeights l) \<sigma>5) of
                       Done \<sigma>6 \<Rightarrow> Done (truncBwdActs B l \<sigma>6) | r \<Rightarrow> r)
       | r \<Rightarrow> r)"
    by (simp add: Layer_bprop_body_def Let_def del: transpose.simps)
  have loop_w: "writesBy l t ?m ?\<sigma>4 \<sigma>5" if "final ?loop = Some \<sigma>5" for \<sigma>5
  proof (cases "isGradProducer ?\<sigma>4 l")
    case True
    with that have "final (bpropActs_loop B l ?v p [0..<length (prev (layers ?\<sigma>4 l))] ?\<sigma>4) = Some \<sigma>5"
      by simp
    from bpropActs_loop_writesBy [OF _ this, of t]
    have "writesBy l t (count_list (prev (layers ?\<sigma>4 l)) t) ?\<sigma>4 \<sigma>5"
      by (simp add: count_positions)
    with True g4 show ?thesis by (simp add: isGradProducer_def graph_def)
  next
    case False
    with that show ?thesis by simp
  qed
  have "writesBy l t ?m ?\<sigma>4 \<sigma>'"
  proof (cases ?loop)
    case (Done \<sigma>5)
    then have l5: "writesBy l t ?m ?\<sigma>4 \<sigma>5" using loop_w by simp
    show ?thesis
    proof (cases "bpropWeights B l ?v p (emit (EvBpropWeights l) \<sigma>5)")
      case w: (Done \<sigma>6)
      with Done assms body have e: "\<sigma>' = truncBwdActs B l \<sigma>6" by simp
      from w have "bufStep l \<sigma>5 \<sigma>6" by (intro bufStep_bpropWeights [of B l p]) simp
      moreover have "bufStep l \<sigma>6 \<sigma>'" unfolding e by (rule bufStep_truncBwdActs)
      ultimately show ?thesis using l5
        by (blast intro: writesBy_trans_0 bufStep_writesBy)
    next
      case w: (Raised e \<sigma>6)
      with Done assms body have e: "\<sigma>' = \<sigma>6" by simp
      from w have "bufStep l \<sigma>5 \<sigma>6" by (intro bufStep_bpropWeights [of B l p]) simp
      with l5 e show ?thesis by (blast intro: writesBy_trans_0 bufStep_writesBy)
    next
      case OutOfFuel
      with Done assms body show ?thesis by simp
    qed
  next
    case (Raised e \<sigma>5)
    with assms body have "\<sigma>' = \<sigma>5" by simp
    with Raised loop_w show ?thesis by simp
  next
    case OutOfFuel
    with assms body show ?thesis by simp
  qed
  with bufStep_writesBy [OF b4, of t] have "writesBy l t ?m ?\<sigma>F \<sigma>'" by (rule writesBy_0_trans)
  with trF show ?thesis by blast
qed

lemma bprop_Suc_body_cases:
  fixes B :: "'m backend"
  assumes "final (bprop B (Suc n) l p \<sigma>) = Some \<sigma>'"
  obtains (inert) "inert \<sigma> l" "\<sigma>' = \<sigma>"
    | (call) "\<not> inert \<sigma> l" "rcvdBInputs (layers \<sigma> l) \<noteq> numGradProducersNext (layers \<sigma> l)"
        "\<sigma>' = emit (EvBprop l) \<sigma>"
    | (fire) \<sigma>2 where "\<not> inert \<sigma> l"
        "rcvdBInputs (layers \<sigma> l) = numGradProducersNext (layers \<sigma> l)"
        "final (Layer_bprop_body B l (ActGradsOf l) p
           (updL l (\<lambda>x. x\<lparr>rcvdBInputs := rcvdBInputs x + 1\<rparr>) (emit (EvBprop l) \<sigma>))) = Some \<sigma>2"
        "\<sigma>' = \<sigma>2 \<or> final (bpropPrev B n (prev (layers \<sigma>2 l)) p \<sigma>2) = Some \<sigma>'"
proof (cases "inert \<sigma> l")
  case True
  then have "bprop B (Suc n) l p \<sigma> = Done \<sigma>" by (simp add: inert_def)
  with assms have "\<sigma>' = \<sigma>" by simp
  with True show ?thesis by (rule inert)
next
  case ni: False
  show ?thesis
  proof (cases "rcvdBInputs (layers \<sigma> l) = numGradProducersNext (layers \<sigma> l)")
    case False
    with ni assms call show ?thesis by (auto simp: inert_def Let_def store_simps)
  next
    case True
    let ?\<sigma>1 = "updL l (\<lambda>x. x\<lparr>rcvdBInputs := rcvdBInputs x + 1\<rparr>) (emit (EvBprop l) \<sigma>)"
    let ?r = "Layer_bprop_body B l (ActGradsOf l) p ?\<sigma>1"
    from ni True assms have a: "final (case ?r of
         Done \<sigma>1 \<Rightarrow> (if isGradProducer \<sigma>1 l then bpropPrev B n (prev (layers \<sigma>1 l)) p \<sigma>1 else Done \<sigma>1)
       | r \<Rightarrow> r) = Some \<sigma>'"
      by (auto simp: inert_def Let_def store_simps)
    then obtain \<sigma>2 where f2: "final ?r = Some \<sigma>2"
      and e: "\<sigma>' = \<sigma>2 \<or> final (bpropPrev B n (prev (layers \<sigma>2 l)) p \<sigma>2) = Some \<sigma>'"
      by (cases ?r) (auto split: if_splits)
    with ni True fire show ?thesis by blast
  qed
qed

lemma bprop_preserves_body:
  fixes B :: "'m backend" and P :: "'m net \<Rightarrow> bool"
  assumes call: "\<And>\<sigma> l. P \<sigma> \<Longrightarrow> P (emit (EvBprop l) \<sigma>)"
    and fire: "\<And>\<sigma> l \<sigma>2. P \<sigma> \<Longrightarrow> \<not> inert \<sigma> l \<Longrightarrow>
        rcvdBInputs (layers \<sigma> l) = numGradProducersNext (layers \<sigma> l) \<Longrightarrow>
        final (Layer_bprop_body B l (ActGradsOf l) p
           (updL l (\<lambda>x. x\<lparr>rcvdBInputs := rcvdBInputs x + 1\<rparr>) (emit (EvBprop l) \<sigma>))) = Some \<sigma>2 \<Longrightarrow>
        P \<sigma>2"
  shows "final (bprop B n l p \<sigma>) = Some \<sigma>' \<Longrightarrow> P \<sigma> \<Longrightarrow> P \<sigma>'"
proof (induction n arbitrary: l \<sigma> \<sigma>')
  case 0
  then show ?case by simp
next
  case (Suc n)
  from Suc.prems(1) show ?case
  proof (cases rule: bprop_Suc_body_cases)
    case inert
    with Suc.prems show ?thesis by simp
  next
    case call
    with Suc.prems assms(1) show ?thesis by simp
  next
    case (fire \<sigma>2)
    from assms(2) [OF Suc.prems(2) fire(1,2,3)] have "P \<sigma>2" .
    moreover have ih: "\<And>l \<sigma> \<sigma>'. final (bprop B n l p \<sigma>) = Some \<sigma>' \<Longrightarrow> P \<sigma> \<Longrightarrow> P \<sigma>'"
      using Suc.IH by blast
    have "final (bpropPrev B n qs p \<tau>) = Some \<sigma>' \<Longrightarrow> P \<tau> \<Longrightarrow> P \<sigma>'" for qs \<tau>
      by (rule bpropPrev_preserves [where P = P and B = B and n = n and p = p]) (rule ih)
    ultimately show ?thesis using fire(4) by blast
  qed
qed

lemma body_CInv:
  fixes B :: "('m::plus) backend"
  assumes inv: "CInv s K n0 \<sigma>"
    and eq: "rcvdBInputs (layers \<sigma> l) = numGradProducersNext (layers \<sigma> l)"
    and f2: "final (Layer_bprop_body B l (ActGradsOf l) p
           (updL l (\<lambda>x. x\<lparr>rcvdBInputs := rcvdBInputs x + 1\<rparr>) (emit (EvBprop l) \<sigma>))) = Some \<sigma>2"
  shows "CInv s K n0 \<sigma>2"
proof -
  from Layer_bprop_body_steps [OF f2] obtain \<sigma>3 where
    fs: "flagStep (updL l (\<lambda>x. x\<lparr>rcvdBInputs := rcvdBInputs x + 1\<rparr>) (emit (EvBprop l) \<sigma>)) \<sigma>3"
    and ls: "(lstep B l)\<^sup>*\<^sup>* (emit (EvBpropCommon l (actGrads (layers \<sigma>3 l))) \<sigma>3) \<sigma>2" by blast
  from CInv_fire [OF inv eq fs]
  have "CInv s K n0 (emit (EvBpropCommon l (actGrads (layers \<sigma>3 l))) \<sigma>3)" .
  from lsteps_preserve [of B l _ \<sigma>2 "CInv s K n0" "\<lambda>\<sigma>. True", OF ls this]
  show ?thesis by (auto intro: CInv_step)
qed

lemma WInv_call: "WInv t n0 \<sigma>0 \<sigma> \<Longrightarrow> WInv t n0 \<sigma>0 (emit (EvBprop l) \<sigma>)"
  by (simp add: WInv_def CInv_def store_simps)

lemma WInv_fire:
  fixes B :: "('m::plus) backend"
  assumes inv: "WInv t n0 \<sigma>0 \<sigma>"
    and eq: "rcvdBInputs (layers \<sigma> l) = numGradProducersNext (layers \<sigma> l)"
    and f2: "final (Layer_bprop_body B l (ActGradsOf l) p
           (updL l (\<lambda>x. x\<lparr>rcvdBInputs := rcvdBInputs x + 1\<rparr>) (emit (EvBprop l) \<sigma>))) = Some \<sigma>2"
  shows "WInv t n0 \<sigma>0 \<sigma>2"
proof -
  let ?\<sigma>1 = "updL l (\<lambda>x. x\<lparr>rcvdBInputs := rcvdBInputs x + 1\<rparr>) (emit (EvBprop l) \<sigma>)"
  let ?new = "drop n0 (trace \<sigma>)"
  let ?m = "if gradProducer (layers \<sigma>0 l) then count_list (prev (layers \<sigma>0 l)) t else 0"
  from inv have g0: "sameGraph \<sigma>0 \<sigma>" and n0: "n0 \<le> length (trace \<sigma>)"
    and ci: "\<And>s. CInv s (numGradProducersNext (layers \<sigma>0 s)) n0 \<sigma>"
    and wb: "\<And>s. length (filter (\<lambda>w. fst w = s) (wcontribs t ?new))
               \<le> (if bwdFires s ?new \<noteq> [] \<and> gradProducer (layers \<sigma>0 s)
                   then count_list (prev (layers \<sigma>0 s)) t else 0)"
    by (simp_all add: WInv_def)
  from g0 have g1: "sameGraph \<sigma>0 ?\<sigma>1" by (intro sameGraph_counter) simp
  from Layer_bprop_body_sameGraph [OF f2] g1 have g2: "sameGraph \<sigma>0 \<sigma>2"
    by (blast intro: sameGraph_trans)
  from g1 have m1: "(if gradProducer (layers ?\<sigma>1 l) then count_list (prev (layers ?\<sigma>1 l)) t else 0) = ?m"
    by (simp add: sameGraph_def graph_def)
  from Layer_bprop_body_writesBy [OF f2, of t] m1 obtain \<sigma>F g where
    trF: "trace \<sigma>F = trace ?\<sigma>1 @ [EvBpropCommon l g]" and w: "writesBy l t ?m \<sigma>F \<sigma>2"
    by auto
  from w obtain es where es: "trace \<sigma>2 = trace \<sigma>F @ es" "\<forall>s. bwdFires s es = []"
    "\<forall>w\<in>set (wcontribs t es). fst w = l" "length (wcontribs t es) \<le> ?m"
    unfolding writesBy_def by blast
  from trF es(1) have tr2: "trace \<sigma>2 = trace \<sigma> @ [EvBprop l, EvBpropCommon l g] @ es"
    by (simp add: store_simps)
  with n0 have new2: "drop n0 (trace \<sigma>2) = ?new @ [EvBprop l, EvBpropCommon l g] @ es"
    and n2: "n0 \<le> length (trace \<sigma>2)" by simp_all
  have fires2: "bwdFires s (drop n0 (trace \<sigma>2)) = bwdFires s ?new @ (if l = s then [g] else [])" for s
    using es(2) by (simp add: new2)
  have wc2: "wcontribs t (drop n0 (trace \<sigma>2)) = wcontribs t ?new @ wcontribs t es"
    by (simp add: new2)
  have c2: "CInv s (numGradProducersNext (layers \<sigma>0 s)) n0 \<sigma>2" for s
    by (rule body_CInv [OF ci eq f2])
  have nf: "bwdFires l ?new = []"
  proof (rule ccontr)
    assume "bwdFires l ?new \<noteq> []"
    with ci [of l] have "numGradProducersNext (layers \<sigma> l) < rcvdBInputs (layers \<sigma> l)"
      by (simp add: CInv_def)
    with eq show False by simp
  qed
  have b2: "length (filter (\<lambda>w. fst w = s) (wcontribs t (drop n0 (trace \<sigma>2))))
               \<le> (if bwdFires s (drop n0 (trace \<sigma>2)) \<noteq> [] \<and> gradProducer (layers \<sigma>0 s)
                   then count_list (prev (layers \<sigma>0 s)) t else 0)" for s
  proof (cases "s = l")
    case False
    with es(3) have "filter (\<lambda>w. fst w = s) (wcontribs t es) = []" by (auto simp: filter_empty_conv)
    with False wb [of s] show ?thesis by (simp add: wc2 fires2)
  next
    case True
    from wb [of l] nf have "filter (\<lambda>w. fst w = l) (wcontribs t ?new) = []" by simp
    moreover from length_filter_le [of "\<lambda>w. fst w = l" "wcontribs t es"] es(4)
    have "length (filter (\<lambda>w. fst w = l) (wcontribs t es)) \<le> ?m" by (rule order_trans)
    ultimately have "length (filter (\<lambda>w. fst w = l) (wcontribs t (drop n0 (trace \<sigma>2)))) \<le> ?m"
      by (simp add: wc2)
    with True show ?thesis by (simp add: fires2 split: if_splits)
  qed
  from g2 n2 c2 b2 show ?thesis by (simp add: WInv_def)
qed

lemma bprop_WInv:
  fixes B :: "('m::plus) backend"
  shows "final (bprop B n l p \<sigma>) = Some \<sigma>' \<Longrightarrow> WInv t n0 \<sigma>0 \<sigma> \<Longrightarrow> WInv t n0 \<sigma>0 \<sigma>'"
  by (rule bprop_preserves_body [where P = "WInv t n0 \<sigma>0" and B = B])
    (auto intro: WInv_call WInv_fire)

lemma count_map_fst:
  "count (mset (map fst ws)) s = length (filter (\<lambda>w. fst w = s) ws)"
  by (induction ws) auto

lemma count_mset_list: "count (mset xs) s = count_list xs s"
  by (induction xs) auto

lemma WInv_writers:
  assumes inv: "WInv t n0 \<sigma>0 \<sigma>" and con: "consistentAt \<sigma>0 t"
  shows "mset (map fst (wcontribs t (drop n0 (trace \<sigma>)))) \<subseteq># mset (gradSuccs \<sigma>0 t)"
proof (rule mset_subset_eqI)
  fix s
  let ?ws = "wcontribs t (drop n0 (trace \<sigma>))"
  have "count (mset (map fst ?ws)) s = length (filter (\<lambda>w. fst w = s) ?ws)"
    by (rule count_map_fst)
  also from inv have "\<dots> \<le> (if gradProducer (layers \<sigma>0 s) then count_list (prev (layers \<sigma>0 s)) t else 0)"
    by (auto simp: WInv_def split: if_splits dest: spec [of _ s])
  also from con have "\<dots> = (if gradProducer (layers \<sigma>0 s) then count_list (next (layers \<sigma>0 t)) s else 0)"
    by (simp add: consistentAt_def)
  also have "\<dots> = count (mset (gradSuccs \<sigma>0 t)) s"
    by (simp add: gradSuccs_def count_mset_list)
  finally show "count (mset (map fst ?ws)) s \<le> count (mset (gradSuccs \<sigma>0 t)) s" .
qed

section \<open>Contributions and their order\<close>

lemma overwritesD:
  assumes "overwrites B"
  shows "convImgActs B v w t ps 0 1 = convImgActs B v w t' ps 0 1"
    and "computeLogregSoftmaxGrads B lb pr t False c = computeLogregSoftmaxGrads B lb pr t' False c"
    and "computeSoftmaxGrads B a v t False = computeSoftmaxGrads B a v t' False"
    and "convLocalMaxUndo B a v ac t ps 0 1 = convLocalMaxUndo B a v ac t' ps 0 1"
    and "convLocalAvgUndo B v t ps 0 1 = convLocalAvgUndo B v t' ps 0 1"
    and "convResponseNormUndo B v d a ac t ps fs 0 1 = convResponseNormUndo B v d a ac t' ps fs 0 1"
    and "convContrastNormUndo B v d md ac t ps fs 0 1 = convContrastNormUndo B v d md ac t' ps fs 0 1"
    and "computeLogregGrads B lb pr t False c = computeLogregGrads B lb pr t' False c"
proof -
  note a = assms [unfolded overwrites_def]
  show "convImgActs B v w t ps 0 1 = convImgActs B v w t' ps 0 1"
    by (rule a [THEN conjunct1, rule_format])
  note b = a [THEN conjunct2]
  show "computeLogregSoftmaxGrads B lb pr t False c = computeLogregSoftmaxGrads B lb pr t' False c"
    by (rule b [THEN conjunct1, rule_format])
  note b = b [THEN conjunct2]
  show "computeSoftmaxGrads B a v t False = computeSoftmaxGrads B a v t' False"
    by (rule b [THEN conjunct1, rule_format])
  note b = b [THEN conjunct2]
  show "convLocalMaxUndo B a v ac t ps 0 1 = convLocalMaxUndo B a v ac t' ps 0 1"
    by (rule b [THEN conjunct1, rule_format])
  note b = b [THEN conjunct2]
  show "convLocalAvgUndo B v t ps 0 1 = convLocalAvgUndo B v t' ps 0 1"
    by (rule b [THEN conjunct1, rule_format])
  note b = b [THEN conjunct2]
  show "convResponseNormUndo B v d a ac t ps fs 0 1 = convResponseNormUndo B v d a ac t' ps fs 0 1"
    by (rule b [THEN conjunct1, rule_format])
  note b = b [THEN conjunct2]
  show "convContrastNormUndo B v d md ac t ps fs 0 1 = convContrastNormUndo B v d md ac t' ps fs 0 1"
    by (rule b [THEN conjunct1, rule_format])
  note b = b [THEN conjunct2]
  show "computeLogregGrads B lb pr t False c = computeLogregGrads B lb pr t' False c"
    by (rule b [rule_format])
qed

lemma bpropActs_writes:
  fixes B :: "('m::plus) backend"
  assumes acc: "accumulates B" and wf: "wellFormed \<tau>" "noSkipInto \<tau> t"
    and gp: "gradProducer (layers \<tau> s)" and il: "i < length (prev (layers \<tau> s))"
    and q: "prev (layers \<tau> s) ! i = t" and nn: "0 \<le> rcvdBInputs (layers \<tau> t)"
    and run: "bpropActs B s (ActGradsOf s) i p \<tau> = Done \<tau>'"
  shows "\<exists>k c. contribution B p \<tau> s i = Some c
           \<and> \<tau>' = emit (EvGrad k s i t c)
                   (updL t (\<lambda>x. x\<lparr>actGrads := (if rcvdBInputs (layers \<tau> t) = 0 then c
                                                else actGrads (layers \<tau> t) + c)\<rparr>) \<tau>)"
proof -
  from writes_into [OF wf gp il q] bpropActs_effect [OF run il]
  have "contributes B \<tau> s i \<tau>'" by blast
  then obtain k c g where
    s1: "\<tau>' = emit (EvGrad k s i t c) (updL t (\<lambda>x. x\<lparr>actGrads := g\<rparr>) \<tau>)"
    and g0: "rcvdBInputs (layers \<tau> t) = 0 \<longrightarrow> g = c"
    and g1: "0 < rcvdBInputs (layers \<tau> t) \<longrightarrow> g = actGrads (layers \<tau> t) + c"
    using acc q by (auto simp: contributes_def)
  from g0 g1 nn have g: "g = (if rcvdBInputs (layers \<tau> t) = 0 then c else actGrads (layers \<tau> t) + c)"
    by (cases "rcvdBInputs (layers \<tau> t) = 0") auto
  from s1 have "drop (length (trace \<tau>)) (trace \<tau>') = [EvGrad k s i t c]"
    by (simp add: store_simps)
  with run q have "contribution B p \<tau> s i = Some c" by (simp add: contribution_def)
  with s1 g show ?thesis by blast
qed

lemma contribution_indep:
  fixes B :: "'m backend"
  assumes ov: "overwrites B" and lt: "l \<noteq> t"
  shows "contribution B p (incRcvdBInputs t (emit e (updL t (\<lambda>x. x\<lparr>actGrads := g\<rparr>) \<sigma>))) l i
         = contribution B p \<sigma> l i"
proof (cases "kind (layers \<sigma> l)")
  case FCLayer
  with lt show ?thesis
    by (auto simp: contribution_def bpropActs_def FCLayer_bpropActs_def Let_def store_simps
        incRcvdBInputs_def getRcvdBInputs_def)
next
  case ConvLayer
  with lt show ?thesis
    by (auto simp: contribution_def bpropActs_def ConvLayer_bpropActs_def Let_def store_simps
        incRcvdBInputs_def getRcvdBInputs_def intro: overwritesD [OF ov])
next
  case SoftmaxLayer
  with lt show ?thesis
    by (auto simp: contribution_def bpropActs_def SoftmaxLayer_bpropActs_def Let_def store_simps
        incRcvdBInputs_def getRcvdBInputs_def doLogregGrad_def getNext_def getPrev_def getType_def
        intro: overwritesD [OF ov])
next
  case DataLayer
  with lt show ?thesis
    by (auto simp: contribution_def bpropActs_def store_simps incRcvdBInputs_def)
next
  case PoolLayer
  with lt show ?thesis
    by (auto simp: contribution_def bpropActs_def PoolLayer_bpropActs_def Let_def store_simps
        incRcvdBInputs_def getRcvdBInputs_def intro: overwritesD [OF ov])
next
  case ResponseNormLayer
  with lt show ?thesis
    by (auto simp: contribution_def bpropActs_def ResponseNormLayer_bpropActs_def Let_def store_simps
        incRcvdBInputs_def getRcvdBInputs_def intro: overwritesD [OF ov])
next
  case ContrastNormLayer
  with lt show ?thesis
    by (auto simp: contribution_def bpropActs_def ContrastNormLayer_bpropActs_def Let_def store_simps
        incRcvdBInputs_def getRcvdBInputs_def intro: overwritesD [OF ov])
next
  case LogregCostLayer
  with lt show ?thesis
    by (auto simp: contribution_def bpropActs_def LogregCostLayer_bpropActs_def Let_def store_simps
        incRcvdBInputs_def getRcvdBInputs_def doWork_def getNext_def getPrev_def getType_def
        intro: overwritesD [OF ov])
qed

lemma bpropActs_swap:
  fixes B :: "('m::comm_monoid_add) backend"
  assumes acc: "accumulates B" and ov: "overwrites B"
    and wf: "wellFormed \<tau>" "noSkipInto \<tau> t"
    and s1: "gradProducer (layers \<tau> s1)" "i1 < length (prev (layers \<tau> s1))"
      "prev (layers \<tau> s1) ! i1 = t" "s1 \<noteq> t"
    and s2: "gradProducer (layers \<tau> s2)" "i2 < length (prev (layers \<tau> s2))"
      "prev (layers \<tau> s2) ! i2 = t" "s2 \<noteq> t"
    and nn: "0 \<le> rcvdBInputs (layers \<tau> t)"
    and a1: "bpropActs B s1 (ActGradsOf s1) i1 p \<tau> = Done \<tau>1"
    and a2: "bpropActs B s2 (ActGradsOf s2) i2 p (incRcvdBInputs t \<tau>1) = Done \<tau>12"
    and b1: "bpropActs B s2 (ActGradsOf s2) i2 p \<tau> = Done \<tau>2"
    and b2: "bpropActs B s1 (ActGradsOf s1) i1 p (incRcvdBInputs t \<tau>2) = Done \<tau>21"
  shows "layers (incRcvdBInputs t \<tau>12) = layers (incRcvdBInputs t \<tau>21)"
proof -
  let ?r = "rcvdBInputs (layers \<tau> t)"
  let ?old = "actGrads (layers \<tau> t)"
  have second: "\<exists>k. \<tau>'' = emit (EvGrad k s' i' t c')
                       (updL t (\<lambda>x. x\<lparr>actGrads := (if ?r = 0 then c else ?old + c) + c'\<rparr>)
                          (incRcvdBInputs t \<tau>'))"
    if first: "\<tau>' = emit (EvGrad k s i t c)
                       (updL t (\<lambda>x. x\<lparr>actGrads := (if ?r = 0 then c else ?old + c)\<rparr>) \<tau>)"
      and other: "contribution B p \<tau> s' i' = Some c'"
      and s': "gradProducer (layers \<tau> s')" "i' < length (prev (layers \<tau> s'))"
        "prev (layers \<tau> s') ! i' = t" "s' \<noteq> t"
      and run: "bpropActs B s' (ActGradsOf s') i' p (incRcvdBInputs t \<tau>') = Done \<tau>''"
    for \<tau>' \<tau>'' k s i c s' i' c'
  proof -
    let ?\<tau>1 = "incRcvdBInputs t \<tau>'"
    have g: "\<forall>x. graph (layers ?\<tau>1 x) = graph (layers \<tau> x)"
      by (simp add: first incRcvdBInputs_def store_simps graph_def)
    from wf wellFormed_sameGraph [OF g] noSkipInto_sameGraph [OF g, of t]
    have wf1: "wellFormed ?\<tau>1" "noSkipInto ?\<tau>1 t" by simp_all
    from g s' have s1': "gradProducer (layers ?\<tau>1 s')" "i' < length (prev (layers ?\<tau>1 s'))"
      "prev (layers ?\<tau>1 s') ! i' = t"
      using spec [OF g, of s'] by (simp_all add: graph_def)
    from nn have r1: "rcvdBInputs (layers ?\<tau>1 t) = ?r + 1" "0 \<le> rcvdBInputs (layers ?\<tau>1 t)"
      and a1: "actGrads (layers ?\<tau>1 t) = (if ?r = 0 then c else ?old + c)"
      by (simp_all add: first incRcvdBInputs_def store_simps)
    from bpropActs_writes [OF acc wf1 s1' r1(2) run] obtain k' c'' where
      c'': "contribution B p ?\<tau>1 s' i' = Some c''"
      and t'': "\<tau>'' = emit (EvGrad k' s' i' t c'')
                   (updL t (\<lambda>x. x\<lparr>actGrads := (if rcvdBInputs (layers ?\<tau>1 t) = 0 then c''
                                                else actGrads (layers ?\<tau>1 t) + c'')\<rparr>) ?\<tau>1)"
      by blast
    from contribution_indep [OF ov s'(4), of p "EvGrad k s i t c" _ \<tau> i'] other c''
    have "c'' = c'" unfolding first by simp
    with t'' r1 a1 nn show ?thesis by auto
  qed
  from bpropActs_writes [OF acc wf s1(1,2,3) nn a1] obtain k1 c1 where
    c1: "contribution B p \<tau> s1 i1 = Some c1"
    and t1: "\<tau>1 = emit (EvGrad k1 s1 i1 t c1)
                 (updL t (\<lambda>x. x\<lparr>actGrads := (if ?r = 0 then c1 else ?old + c1)\<rparr>) \<tau>)" by blast
  from bpropActs_writes [OF acc wf s2(1,2,3) nn b1] obtain k2 c2 where
    c2: "contribution B p \<tau> s2 i2 = Some c2"
    and t2: "\<tau>2 = emit (EvGrad k2 s2 i2 t c2)
                 (updL t (\<lambda>x. x\<lparr>actGrads := (if ?r = 0 then c2 else ?old + c2)\<rparr>) \<tau>)" by blast
  from second [OF t1 c2 s2 a2] obtain k12 where
    t12: "\<tau>12 = emit (EvGrad k12 s2 i2 t c2)
                  (updL t (\<lambda>x. x\<lparr>actGrads := (if ?r = 0 then c1 else ?old + c1) + c2\<rparr>)
                     (incRcvdBInputs t \<tau>1))" by blast
  from second [OF t2 c1 s1 b2] obtain k21 where
    t21: "\<tau>21 = emit (EvGrad k21 s1 i1 t c1)
                  (updL t (\<lambda>x. x\<lparr>actGrads := (if ?r = 0 then c2 else ?old + c2) + c1\<rparr>)
                     (incRcvdBInputs t \<tau>2))" by blast
  have "(if ?r = 0 then c1 else ?old + c1) + c2 = (if ?r = 0 then c2 else ?old + c2) + c1"
    by (simp add: ac_simps)
  then show ?thesis
    unfolding t12 t21 t1 t2 by (simp add: incRcvdBInputs_def store_simps)
qed

lemma gradSuccs_sameGraph:
  assumes "\<forall>x. graph (layers \<sigma>' x) = graph (layers \<sigma> x)"
  shows "gradSuccs \<sigma>' t = gradSuccs \<sigma> t" and "consistentAt \<sigma>' t = consistentAt \<sigma> t"
proof -
  from assms have e: "\<And>x. gradProducer (layers \<sigma>' x) = gradProducer (layers \<sigma> x)"
    "\<And>x. prev (layers \<sigma>' x) = prev (layers \<sigma> x)" "\<And>x. next (layers \<sigma>' x) = next (layers \<sigma> x)"
    "\<And>x. numGradProducersNext (layers \<sigma>' x) = numGradProducersNext (layers \<sigma> x)"
    by (simp_all add: graph_def)
  show "gradSuccs \<sigma>' t = gradSuccs \<sigma> t" by (simp add: gradSuccs_def e)
  then show "consistentAt \<sigma>' t = consistentAt \<sigma> t" by (simp add: consistentAt_def e)
qed

lemma size_subset_eq:
  fixes A G :: "'a multiset"
  assumes "A \<subseteq># G" and "size G \<le> size A"
  shows "A = G"
proof (rule ccontr)
  assume "A \<noteq> G"
  with assms(1) have "A \<subset># G" by (simp add: subset_mset.less_le)
  then have "size A < size G" by (rule mset_subset_size)
  with assms(2) show False by simp
qed

lemma backwardRun_WInv:
  fixes B :: "('m::plus) backend"
  shows "final (backwardRun B n p ls \<sigma>) = Some \<sigma>' \<Longrightarrow> WInv t n0 \<sigma>0 \<sigma> \<Longrightarrow> WInv t n0 \<sigma>0 \<sigma>'"
  by (rule backwardRun_preserves [where P = "WInv t n0 \<sigma>0" and B = B and n = n and p = p])
    (rule bprop_WInv)

lemma backwardRun_GInv:
  fixes B :: "('m::comm_monoid_add) backend"
  assumes "accumulates B"
  shows "final (backwardRun B n p ls \<sigma>) = Some \<sigma>' \<Longrightarrow> GInv t K n0 \<sigma> \<Longrightarrow> GInv t K n0 \<sigma>'"
  by (rule backwardRun_preserves [where P = "GInv t K n0" and B = B and n = n and p = p])
    (rule bprop_GInv [OF assms])

lemma pass_sums_successors:
  fixes B :: "('m::comm_monoid_add) backend"
  assumes acc: "accumulates B"
    and wf: "wellFormed \<sigma>" "noSkipInto \<sigma> t" and con: "consistentAt \<sigma> t"
    and ne: "gradSuccs \<sigma> t \<noteq> []"
    and fin: "final (backwardRun B n p ls (reset t \<sigma>)) = Some \<sigma>'"
  shows "mset (map fst (wcontribs t (drop (length (trace \<sigma>)) (trace \<sigma>')))) \<subseteq># mset (gradSuccs \<sigma> t)"
    and "bwdFires t (drop (length (trace \<sigma>)) (trace \<sigma>')) = [] \<Longrightarrow>
           rcvdBInputs (layers \<sigma>' t) = int (length (wcontribs t (drop (length (trace \<sigma>)) (trace \<sigma>'))))"
    and "bwdFires t (drop (length (trace \<sigma>)) (trace \<sigma>')) = [] \<Longrightarrow>
           wcontribs t (drop (length (trace \<sigma>)) (trace \<sigma>')) \<noteq> [] \<Longrightarrow>
           actGrads (layers \<sigma>' t)
             = sum_mset (image_mset snd (mset (wcontribs t (drop (length (trace \<sigma>)) (trace \<sigma>')))))"
    and "bwdFires t (drop (length (trace \<sigma>)) (trace \<sigma>')) \<noteq> [] \<Longrightarrow>
           mset (map fst (wcontribs t (drop (length (trace \<sigma>)) (trace \<sigma>')))) = mset (gradSuccs \<sigma> t)"
    and "bwdFires t (drop (length (trace \<sigma>)) (trace \<sigma>')) \<noteq> [] \<Longrightarrow>
           bwdFires t (drop (length (trace \<sigma>)) (trace \<sigma>'))
             = [sum_mset (image_mset snd (mset (wcontribs t (drop (length (trace \<sigma>)) (trace \<sigma>')))))]"
proof -
  let ?n0 = "length (trace \<sigma>)"
  let ?new = "drop ?n0 (trace \<sigma>')"
  let ?ws = "wcontribs t ?new"
  let ?K = "length (gradSuccs \<sigma> t)"
  have sums: "sum_mset (image_mset snd (mset ?ws)) = sum_list (contribs t ?new)"
    by (simp add: contribs_wcontribs sum_mset_sum_list [symmetric])
  have len: "length (contribs t ?new) = length ?ws" by (simp add: contribs_wcontribs)
  from con have K: "numGradProducersNext (layers \<sigma> t) = int ?K" by (simp add: consistentAt_def)
  from ne have K1: "1 \<le> ?K" by (cases "gradSuccs \<sigma> t") simp_all
  from wf K K1 have "GInv t ?K ?n0 (reset t \<sigma>)"
    by (simp add: GInv_def reset_def store_simps wellFormed_def noSkipInto_def)
  from backwardRun_GInv [OF acc fin this] have gi: "GInv t ?K ?n0 \<sigma>'" .
  have "\<forall>x. graph (layers (reset t \<sigma>) x) = graph (layers \<sigma> x)"
    by (simp add: reset_def store_simps graph_def)
  from gradSuccs_sameGraph [OF this, of t] con
  have gs: "gradSuccs (reset t \<sigma>) t = gradSuccs \<sigma> t" and c0: "consistentAt (reset t \<sigma>) t"
    by simp_all
  have "WInv t ?n0 (reset t \<sigma>) (reset t \<sigma>)"
    by (simp add: WInv_def CInv_def reset_def store_simps)
  from backwardRun_WInv [OF fin this] have "WInv t ?n0 (reset t \<sigma>) \<sigma>'" .
  from WInv_writers [OF this c0] gs
  show sub: "mset (map fst ?ws) \<subseteq># mset (gradSuccs \<sigma> t)" by simp
  from size_mset_mono [OF sub] have le: "length ?ws \<le> ?K" by simp
  {
    assume nf: "bwdFires t ?new = []"
    with gi len show "rcvdBInputs (layers \<sigma>' t) = int (length ?ws)" by (simp add: GInv_def)
    assume "?ws \<noteq> []"
    with gi nf len have "actGrads (layers \<sigma>' t) = sum_list (contribs t ?new)"
      by (auto simp: GInv_def)
    with sums show "actGrads (layers \<sigma>' t) = sum_mset (image_mset snd (mset ?ws))" by simp
  }
  {
    assume f: "bwdFires t ?new \<noteq> []"
    with gi len have kl: "?K \<le> length ?ws"
      and fv: "bwdFires t ?new = [sum_list (take ?K (contribs t ?new))]"
      by (simp_all add: GInv_def)
    from kl have "size (mset (gradSuccs \<sigma> t)) \<le> size (mset (map fst ?ws))" by simp
    from size_subset_eq [OF sub this]
    show "mset (map fst ?ws) = mset (gradSuccs \<sigma> t)" .
    from kl le len have "take ?K (contribs t ?new) = contribs t ?new" by simp
    with fv sums show "bwdFires t ?new = [sum_mset (image_mset snd (mset ?ws))]" by simp
  }
qed

section \<open>The gradient buffer as the sum of the contributions\<close>

text \<open>
  Claim C3, as amended. The matrix kernels are taken to accumulate when they are called
  in add mode (\<open>accumulates\<close>) and to ignore the old target when they overwrite
  (\<open>overwrites\<close>), and matrix addition to be associative and commutative with a zero. Let
  \<open>t\<close> be a layer other than a softmax layer with at most one successor that feeds a
  gradient-producing logistic cost layer (into such a layer the cost layer writes
  nothing: its gradient is fused into the step of the softmax layer), in a store whose
  data layers produce no gradients and whose pooling layers are of a kind the
  constructor accepts.

  One contribution: when a gradient-producing layer \<open>s\<close> runs \<^verbatim>\<open>bpropActs\<close> for its
  predecessor \<open>t\<close>, with the counter of \<open>t\<close> not negative, the buffer of \<open>t\<close> becomes
  the contribution \<open>c\<close> of \<open>s\<close> if the counter of \<open>t\<close> is 0 and the old buffer plus \<open>c\<close>
  otherwise; \<^verbatim>\<open>bpropActs\<close> leaves the counter as it is, and the loop of
  \<^verbatim>\<open>Layer::bprop\<close> increments it afterwards. The contribution of \<open>s\<close> does not depend on
  the buffer or the counter of \<open>t\<close>, so what one successor contributes is the same
  before and after another successor has contributed; and when two successors \<open>s1\<close> and
  \<open>s2\<close> contribute one after the other, both orders leave every layer, the buffer and
  the counter of \<open>t\<close> included, in the same state.

  A whole pass: let the edges into \<open>t\<close> be registered at both ends, let the
  gradient-producing-successor count of \<open>t\<close> be the number of its gradient-producing
  successors, and let there be at least one. After \<^verbatim>\<open>reset()\<close> on \<open>t\<close>, take any
  sequence of calls of \<^verbatim>\<open>bprop(passType)\<close> on any layers. Whenever the run ends, the
  layers that have written into the buffer of \<open>t\<close> are gradient-producing successors of
  \<open>t\<close>, each at most once per edge. As long as the backward computation of \<open>t\<close> has
  not started, the counter of \<open>t\<close> is the number of contributions received and the
  buffer of \<open>t\<close> is their sum. Once it has started, the writers are exactly all the
  gradient-producing successors of \<open>t\<close>, once per edge, and the computation has started
  on the sum of their contributions, a sum over the multiset of contributions that no
  order of the successors changes.
\<close>

theorem gradient_buffer_sums_contributions:
  fixes B :: "('m::comm_monoid_add) backend"
  assumes "accumulates B" and "overwrites B"
  shows "(\<forall>\<tau> \<tau>' s i. wellFormed \<tau> \<and> noSkipInto \<tau> t \<and> gradProducer (layers \<tau> s)
              \<and> i < length (prev (layers \<tau> s)) \<and> prev (layers \<tau> s) ! i = t
              \<and> 0 \<le> rcvdBInputs (layers \<tau> t)
              \<and> bpropActs B s (ActGradsOf s) i p \<tau> = Done \<tau>' \<longrightarrow>
            (\<exists>c. contribution B p \<tau> s i = Some c
                \<and> wcontribs t (drop (length (trace \<tau>)) (trace \<tau>')) = [(s, c)]
                \<and> actGrads (layers \<tau>' t)
                    = (if rcvdBInputs (layers \<tau> t) = 0 then c else actGrads (layers \<tau> t) + c))
            \<and> rcvdBInputs (layers \<tau>' t) = rcvdBInputs (layers \<tau> t)
            \<and> (isGradConsumer \<tau> t \<longrightarrow>
                 bpropActs_loop B s (ActGradsOf s) p [i] \<tau> = Done (incRcvdBInputs t \<tau>')))
     \<and> (\<forall>\<tau> s i g e. s \<noteq> t \<longrightarrow>
            contribution B p (incRcvdBInputs t (emit e (updL t (\<lambda>x. x\<lparr>actGrads := g\<rparr>) \<tau>))) s i
              = contribution B p \<tau> s i)
     \<and> (\<forall>\<tau> s1 i1 s2 i2 \<tau>1 \<tau>12 \<tau>2 \<tau>21.
            wellFormed \<tau> \<and> noSkipInto \<tau> t \<and> 0 \<le> rcvdBInputs (layers \<tau> t)
          \<and> gradProducer (layers \<tau> s1) \<and> i1 < length (prev (layers \<tau> s1))
          \<and> prev (layers \<tau> s1) ! i1 = t \<and> s1 \<noteq> t
          \<and> gradProducer (layers \<tau> s2) \<and> i2 < length (prev (layers \<tau> s2))
          \<and> prev (layers \<tau> s2) ! i2 = t \<and> s2 \<noteq> t
          \<and> bpropActs B s1 (ActGradsOf s1) i1 p \<tau> = Done \<tau>1
          \<and> bpropActs B s2 (ActGradsOf s2) i2 p (incRcvdBInputs t \<tau>1) = Done \<tau>12
          \<and> bpropActs B s2 (ActGradsOf s2) i2 p \<tau> = Done \<tau>2
          \<and> bpropActs B s1 (ActGradsOf s1) i1 p (incRcvdBInputs t \<tau>2) = Done \<tau>21 \<longrightarrow>
            layers (incRcvdBInputs t \<tau>12) = layers (incRcvdBInputs t \<tau>21))
     \<and> (\<forall>\<sigma>'. wellFormed \<sigma> \<and> noSkipInto \<sigma> t \<and> consistentAt \<sigma> t \<and> gradSuccs \<sigma> t \<noteq> []
              \<and> final (backwardRun B n p ls (reset t \<sigma>)) = Some \<sigma>' \<longrightarrow>
            mset (map fst (wcontribs t (drop (length (trace \<sigma>)) (trace \<sigma>'))))
              \<subseteq># mset (gradSuccs \<sigma> t)
            \<and> (bwdFires t (drop (length (trace \<sigma>)) (trace \<sigma>')) = [] \<longrightarrow>
                 rcvdBInputs (layers \<sigma>' t)
                   = int (length (wcontribs t (drop (length (trace \<sigma>)) (trace \<sigma>'))))
                 \<and> (wcontribs t (drop (length (trace \<sigma>)) (trace \<sigma>')) \<noteq> [] \<longrightarrow>
                      actGrads (layers \<sigma>' t)
                        = sum_mset (image_mset snd
                            (mset (wcontribs t (drop (length (trace \<sigma>)) (trace \<sigma>')))))))
            \<and> (bwdFires t (drop (length (trace \<sigma>)) (trace \<sigma>')) \<noteq> [] \<longrightarrow>
                 mset (map fst (wcontribs t (drop (length (trace \<sigma>)) (trace \<sigma>'))))
                   = mset (gradSuccs \<sigma> t)
                 \<and> bwdFires t (drop (length (trace \<sigma>)) (trace \<sigma>'))
                     = [sum_mset (image_mset snd
                          (mset (wcontribs t (drop (length (trace \<sigma>)) (trace \<sigma>')))))]))"
proof -
  have one: "(\<exists>c. contribution B p \<tau> s i = Some c
                \<and> wcontribs t (drop (length (trace \<tau>)) (trace \<tau>')) = [(s, c)]
                \<and> actGrads (layers \<tau>' t)
                    = (if rcvdBInputs (layers \<tau> t) = 0 then c else actGrads (layers \<tau> t) + c))
            \<and> rcvdBInputs (layers \<tau>' t) = rcvdBInputs (layers \<tau> t)
            \<and> (isGradConsumer \<tau> t \<longrightarrow>
                 bpropActs_loop B s (ActGradsOf s) p [i] \<tau> = Done (incRcvdBInputs t \<tau>'))"
    if a: "wellFormed \<tau> \<and> noSkipInto \<tau> t \<and> gradProducer (layers \<tau> s)
              \<and> i < length (prev (layers \<tau> s)) \<and> prev (layers \<tau> s) ! i = t
              \<and> 0 \<le> rcvdBInputs (layers \<tau> t)
              \<and> bpropActs B s (ActGradsOf s) i p \<tau> = Done \<tau>'" for \<tau> \<tau>' s i
  proof -
    from a have "\<exists>k c. contribution B p \<tau> s i = Some c
           \<and> \<tau>' = emit (EvGrad k s i t c)
                   (updL t (\<lambda>x. x\<lparr>actGrads := (if rcvdBInputs (layers \<tau> t) = 0 then c
                                                else actGrads (layers \<tau> t) + c)\<rparr>) \<tau>)"
      by (intro bpropActs_writes [OF assms(1)]) simp_all
    then obtain k c where c: "contribution B p \<tau> s i = Some c"
      and t': "\<tau>' = emit (EvGrad k s i t c)
                   (updL t (\<lambda>x. x\<lparr>actGrads := (if rcvdBInputs (layers \<tau> t) = 0 then c
                                                else actGrads (layers \<tau> t) + c)\<rparr>) \<tau>)"
      by blast
    from t' have "wcontribs t (drop (length (trace \<tau>)) (trace \<tau>')) = [(s, c)]"
      "actGrads (layers \<tau>' t)
         = (if rcvdBInputs (layers \<tau> t) = 0 then c else actGrads (layers \<tau> t) + c)"
      "rcvdBInputs (layers \<tau>' t) = rcvdBInputs (layers \<tau> t)"
      by (simp_all add: store_simps)
    moreover from a have "isGradConsumer \<tau> t \<longrightarrow>
        bpropActs_loop B s (ActGradsOf s) p [i] \<tau> = Done (incRcvdBInputs t \<tau>')"
      by (simp add: Let_def)
    ultimately show ?thesis using c by blast
  qed
  have two: "contribution B p (incRcvdBInputs t (emit e (updL t (\<lambda>x. x\<lparr>actGrads := g\<rparr>) \<tau>))) s i
              = contribution B p \<tau> s i" if "s \<noteq> t" for \<tau> s i g e
    using that by (rule contribution_indep [OF assms(2)])
  have three: "layers (incRcvdBInputs t \<tau>12) = layers (incRcvdBInputs t \<tau>21)"
    if a: "wellFormed \<tau> \<and> noSkipInto \<tau> t \<and> 0 \<le> rcvdBInputs (layers \<tau> t)
          \<and> gradProducer (layers \<tau> s1) \<and> i1 < length (prev (layers \<tau> s1))
          \<and> prev (layers \<tau> s1) ! i1 = t \<and> s1 \<noteq> t
          \<and> gradProducer (layers \<tau> s2) \<and> i2 < length (prev (layers \<tau> s2))
          \<and> prev (layers \<tau> s2) ! i2 = t \<and> s2 \<noteq> t
          \<and> bpropActs B s1 (ActGradsOf s1) i1 p \<tau> = Done \<tau>1
          \<and> bpropActs B s2 (ActGradsOf s2) i2 p (incRcvdBInputs t \<tau>1) = Done \<tau>12
          \<and> bpropActs B s2 (ActGradsOf s2) i2 p \<tau> = Done \<tau>2
          \<and> bpropActs B s1 (ActGradsOf s1) i1 p (incRcvdBInputs t \<tau>2) = Done \<tau>21"
    for \<tau> s1 i1 s2 i2 \<tau>1 \<tau>12 \<tau>2 \<tau>21
    using a
    by (intro bpropActs_swap [OF assms, of \<tau> t s1 i1 s2 i2 p \<tau>1 \<tau>12 \<tau>2 \<tau>21]) simp_all
  have four: "mset (map fst (wcontribs t (drop (length (trace \<sigma>)) (trace \<sigma>'))))
              \<subseteq># mset (gradSuccs \<sigma> t)
            \<and> (bwdFires t (drop (length (trace \<sigma>)) (trace \<sigma>')) = [] \<longrightarrow>
                 rcvdBInputs (layers \<sigma>' t)
                   = int (length (wcontribs t (drop (length (trace \<sigma>)) (trace \<sigma>'))))
                 \<and> (wcontribs t (drop (length (trace \<sigma>)) (trace \<sigma>')) \<noteq> [] \<longrightarrow>
                      actGrads (layers \<sigma>' t)
                        = sum_mset (image_mset snd
                            (mset (wcontribs t (drop (length (trace \<sigma>)) (trace \<sigma>')))))))
            \<and> (bwdFires t (drop (length (trace \<sigma>)) (trace \<sigma>')) \<noteq> [] \<longrightarrow>
                 mset (map fst (wcontribs t (drop (length (trace \<sigma>)) (trace \<sigma>'))))
                   = mset (gradSuccs \<sigma> t)
                 \<and> bwdFires t (drop (length (trace \<sigma>)) (trace \<sigma>'))
                     = [sum_mset (image_mset snd
                          (mset (wcontribs t (drop (length (trace \<sigma>)) (trace \<sigma>')))))])"
    if a: "wellFormed \<sigma> \<and> noSkipInto \<sigma> t \<and> consistentAt \<sigma> t \<and> gradSuccs \<sigma> t \<noteq> []
              \<and> final (backwardRun B n p ls (reset t \<sigma>)) = Some \<sigma>'" for \<sigma>'
  proof -
    from a have h: "wellFormed \<sigma>" "noSkipInto \<sigma> t" "consistentAt \<sigma> t" "gradSuccs \<sigma> t \<noteq> []"
      "final (backwardRun B n p ls (reset t \<sigma>)) = Some \<sigma>'" by simp_all
    note r = pass_sums_successors [OF assms(1) h]
    from r(1) r(2) r(3) r(4) r(5) show ?thesis by blast
  qed
  from one two three four show ?thesis by blast
qed

text \<open>The claim as stated fails for a softmax layer whose only successor is a logistic
  cost layer: in the example network the softmax layer (3) has one gradient-producing
  successor, the cost layer (4), and a stale gradient 7 in its buffer. With the counter
  of layer 3 at 0, the input-gradient step of the cost layer for layer 3 leaves the
  store as it is, and in the whole backward pass the computation of layer 3 starts on
  the stale 7 while no contribution to layer 3 has been written.\<close>

theorem fused_softmax_buffer_counterexample:
  "numGradProducersNext (layers cNet 3) = 1 \<and> next (layers cNet 3) = [4]
   \<and> gradProducer (layers cNet 4) \<and> prev (layers cNet 4) ! 1 = 3
   \<and> rcvdBInputs (layers cNet 3) = 0 \<and> actGrads (layers cNet 3) = 7
   \<and> bpropActs toyBackend 4 (ActGradsOf 4) 1 PASS_TRAIN cNet = Done cNet
   \<and> map_option (bwdFires 3 \<circ> trace) (final (bprop toyBackend 4 4 PASS_TRAIN cNet)) = Some [7]
   \<and> map_option (contribs 3 \<circ> trace) (final (bprop toyBackend 4 4 PASS_TRAIN cNet)) = Some []"
  by (simp add: cNet_def eval_nat_numeral Layer_bprop_body_def bpropCommon_def bpropActs_defs
      doWork_def doLogregGrad_def getNext_def getPrev_def getType_def getRcvdBInputs_def
      incRcvdBInputs_def isGradConsumer_def bpropWeights_def FCLayer_bpropWeights_def
      truncBwdActs_def Layer_truncBwdActs_def exNet_defs)

lemma accumulates_toyBackend: "accumulates toyBackend"
  by (simp add: accumulates_def toyBackend_def)

lemma overwrites_toyBackend: "overwrites toyBackend"
  by (simp add: overwrites_def toyBackend_def)

lemma dNet_facts:
  "wellFormed dNet" "noSkipInto dNet 2" "consistentAt dNet 2" "gradSuccs dNet 2 \<noteq> []"
  "trace dNet = []"
  by (auto simp: wellFormed_def noSkipInto_def consistentAt_def gradSuccs_def dNet_def exNet_defs)

lemma dNet_run:
  "\<exists>\<sigma>'. final (backwardRun toyBackend 4 PASS_TRAIN [3, 4] (reset 2 dNet)) = Some \<sigma>'
       \<and> wcontribs 2 (trace \<sigma>') = [(3, 10), (4, 6)] \<and> bwdFires 2 (trace \<sigma>') \<noteq> []"
  by (simp add: dNet_def eval_nat_numeral Layer_bprop_body_def bpropCommon_def bpropActs_defs
      getRcvdBInputs_def incRcvdBInputs_def isGradConsumer_def bpropWeights_def
      FCLayer_bpropWeights_def truncBwdActs_def Layer_truncBwdActs_def exNet_defs)

lemma dNet_run_rev:
  "\<exists>\<sigma>'. final (backwardRun toyBackend 4 PASS_TRAIN [4, 3] (reset 2 dNet)) = Some \<sigma>'
       \<and> wcontribs 2 (trace \<sigma>') = [(4, 6), (3, 10)] \<and> bwdFires 2 (trace \<sigma>') \<noteq> []"
  by (simp add: dNet_def eval_nat_numeral Layer_bprop_body_def bpropCommon_def bpropActs_defs
      getRcvdBInputs_def incRcvdBInputs_def isGradConsumer_def bpropWeights_def
      FCLayer_bpropWeights_def truncBwdActs_def Layer_truncBwdActs_def exNet_defs)

theorem gradient_buffer_sums_contributions_witness:
  "(case final (backwardRun toyBackend 4 PASS_TRAIN [3, 4] (reset 2 dNet)) of
      None \<Rightarrow> False
    | Some \<sigma>' \<Rightarrow> wcontribs 2 (trace \<sigma>') = [(3, 10), (4, 6)] \<and> bwdFires 2 (trace \<sigma>') = [16])
   \<and> (case final (backwardRun toyBackend 4 PASS_TRAIN [4, 3] (reset 2 dNet)) of
      None \<Rightarrow> False
    | Some \<sigma>' \<Rightarrow> wcontribs 2 (trace \<sigma>') = [(4, 6), (3, 10)] \<and> bwdFires 2 (trace \<sigma>') = [16])"
proof -
  have fired: "bwdFires 2 (trace \<sigma>') = [sum_mset (image_mset snd (mset (wcontribs 2 (trace \<sigma>'))))]"
    if f: "final (backwardRun toyBackend 4 PASS_TRAIN ls (reset 2 dNet)) = Some \<sigma>'"
      and nz: "bwdFires 2 (trace \<sigma>') \<noteq> []" for ls \<sigma>'
  proof -
    from gradient_buffer_sums_contributions [OF accumulates_toyBackend overwrites_toyBackend,
        where t = 2 and n = 4 and p = PASS_TRAIN and ls = ls and \<sigma> = dNet] dNet_facts f
    have "bwdFires 2 (drop (length (trace dNet)) (trace \<sigma>')) \<noteq> [] \<longrightarrow>
          bwdFires 2 (drop (length (trace dNet)) (trace \<sigma>'))
            = [sum_mset (image_mset snd (mset (wcontribs 2 (drop (length (trace dNet)) (trace \<sigma>')))))]"
      by blast
    with nz dNet_facts(5) show ?thesis by simp
  qed
  from dNet_run obtain \<sigma>1 where
    f1: "final (backwardRun toyBackend 4 PASS_TRAIN [3, 4] (reset 2 dNet)) = Some \<sigma>1"
    and w1: "wcontribs 2 (trace \<sigma>1) = [(3, 10), (4, 6)]" and z1: "bwdFires 2 (trace \<sigma>1) \<noteq> []"
    by blast
  from dNet_run_rev obtain \<sigma>2 where
    f2: "final (backwardRun toyBackend 4 PASS_TRAIN [4, 3] (reset 2 dNet)) = Some \<sigma>2"
    and w2: "wcontribs 2 (trace \<sigma>2) = [(4, 6), (3, 10)]" and z2: "bwdFires 2 (trace \<sigma>2) \<noteq> []"
    by blast
  from fired [OF f1 z1] w1 have "bwdFires 2 (trace \<sigma>1) = [16]" by simp
  moreover from fired [OF f2 z2] w2 have "bwdFires 2 (trace \<sigma>2) = [16]" by simp
  ultimately show ?thesis using f1 f2 w1 w2 by simp
qed

section \<open>The cost layer with coefficient 0\<close>

text \<open>
  Claim C6. A cost layer constructed with coefficient 0 (by the constructor or through
  the factory) is a logistic-regression cost layer with \<^verbatim>\<open>isGradProducer()\<close> false. Once
  it is in the store as layer \<open>c\<close>, after any sequence of member calls on any layers
  (edges added at one end or both, resets, every forward and backward entry point)
  \<^verbatim>\<open>isGradProducer()\<close> of \<open>c\<close> is still false, adding \<open>c\<close> as a successor of any layer
  \<open>a\<close> (by \<^verbatim>\<open>addNext\<close> alone or as the edge from \<open>a\<close> to \<open>c\<close>) leaves the
  gradient-producing-successor count of every layer unchanged, and \<^verbatim>\<open>bprop(passType)\<close>
  on \<open>c\<close> returns normally and leaves the whole store unchanged: every buffer, counter
  and weight of every layer. The last holds for every cost layer whose coefficient
  is 0.
\<close>

theorem cost_coeff_zero_is_inert:
  fixes B :: "('m::plus) backend"
  shows "kind (LogregCostLayer_ctor raw nm ty 0) = LogregCostLayer
   \<and> coeff (LogregCostLayer_ctor raw nm ty 0) = 0
   \<and> \<not> gradProducer (LogregCostLayer_ctor raw nm ty 0)
   \<and> makeCostLayer ''cost.logreg'' raw nm ty 0 = Inr (LogregCostLayer_ctor raw nm ty 0)
   \<and> (layers \<rho> c = LogregCostLayer_ctor raw nm ty 0 \<longrightarrow>
        (\<forall>cs a x n p.
            \<not> isGradProducer (lifetime B cs \<rho>) c
          \<and> numGradProducersNext (layers (addNext a c (lifetime B cs \<rho>)) x)
              = numGradProducersNext (layers (lifetime B cs \<rho>) x)
          \<and> numGradProducersNext (layers (addEdge a c (lifetime B cs \<rho>)) x)
              = numGradProducersNext (layers (lifetime B cs \<rho>) x)
          \<and> bprop B (Suc n) c p (lifetime B cs \<rho>) = Done (lifetime B cs \<rho>)))
   \<and> (kind (layers \<sigma>' c) = LogregCostLayer \<and> coeff (layers \<sigma>' c) = 0 \<longrightarrow>
        bprop B (Suc n') c p' \<sigma>' = Done \<sigma>')"
proof -
  have built: "kind (LogregCostLayer_ctor raw nm ty 0) = LogregCostLayer"
    "coeff (LogregCostLayer_ctor raw nm ty 0) = 0"
    "\<not> gradProducer (LogregCostLayer_ctor raw nm ty 0)"
    "makeCostLayer ''cost.logreg'' raw nm ty 0 = Inr (LogregCostLayer_ctor raw nm ty 0)"
    by (simp_all add: ctor_defs)
  have later: "\<not> isGradProducer (lifetime B cs \<rho>) c
          \<and> numGradProducersNext (layers (addNext a c (lifetime B cs \<rho>)) x)
              = numGradProducersNext (layers (lifetime B cs \<rho>) x)
          \<and> numGradProducersNext (layers (addEdge a c (lifetime B cs \<rho>)) x)
              = numGradProducersNext (layers (lifetime B cs \<rho>) x)
          \<and> bprop B (Suc n) c p (lifetime B cs \<rho>) = Done (lifetime B cs \<rho>)"
    if "layers \<rho> c = LogregCostLayer_ctor raw nm ty 0" for cs a x n p
  proof -
    from lifetime_sameClass [of \<rho> B cs] that built(1,2,3)
    have "kind (layers (lifetime B cs \<rho>) c) = LogregCostLayer"
      "coeff (layers (lifetime B cs \<rho>) c) = 0" "\<not> gradProducer (layers (lifetime B cs \<rho>) c)"
      by (simp_all add: sameClass_def)
    then show ?thesis
      by (simp add: isGradProducer_def addNext_def addEdge_def addPrev_def store_simps)
  qed
  have "bprop B (Suc n') c p' \<sigma>' = Done \<sigma>'"
    if "kind (layers \<sigma>' c) = LogregCostLayer \<and> coeff (layers \<sigma>' c) = 0"
    using that by simp
  with built later show ?thesis by blast
qed

lemma exNet_lifetime:
  "exNet c = lifetime toyBackend
     [MAddEdge 1 2, MAddEdge 2 3, MAddEdge 0 4, MAddEdge 3 4,
      MReset 0, MReset 1, MReset 2, MReset 3, MReset 4] (bareNet c)"
  by (simp add: exNet_def bareNet_def lifetime_def Let_def)

lemma bareNet_cost: "layers (bareNet 0) 4 = LogregCostLayer_ctor blank ''logprob'' ''cost.logreg'' 0"
  by (simp add: bareNet_def Let_def)

theorem cost_coeff_zero_is_inert_witness:
  "\<not> isGradProducer (exNet 0) 4
   \<and> numGradProducersNext
        (layers (lifetime toyBackend [MAddEdge 1 2, MAddEdge 2 3, MAddEdge 0 4, MAddEdge 3 4] (bareNet 0)) 3)
     = numGradProducersNext
        (layers (lifetime toyBackend [MAddEdge 1 2, MAddEdge 2 3, MAddEdge 0 4] (bareNet 0)) 3)
   \<and> numGradProducersNext (layers (addEdge 3 4 (exNet 0)) 3) = numGradProducersNext (layers (exNet 0) 3)
   \<and> bprop toyBackend (Suc 0) 4 PASS_TRAIN (exNet 0) = Done (exNet 0)"
proof -
  note inst = cost_coeff_zero_is_inert [where B = toyBackend and raw = blank and nm = "''logprob''"
      and ty = "''cost.logreg''" and \<rho> = "bareNet 0" and c = 4]
  from inst bareNet_cost
  have every: "\<And>cs a x n p. \<not> isGradProducer (lifetime toyBackend cs (bareNet 0)) 4
          \<and> numGradProducersNext (layers (addNext a 4 (lifetime toyBackend cs (bareNet 0))) x)
              = numGradProducersNext (layers (lifetime toyBackend cs (bareNet 0)) x)
          \<and> numGradProducersNext (layers (addEdge a 4 (lifetime toyBackend cs (bareNet 0))) x)
              = numGradProducersNext (layers (lifetime toyBackend cs (bareNet 0)) x)
          \<and> bprop toyBackend (Suc n) 4 p (lifetime toyBackend cs (bareNet 0))
              = Done (lifetime toyBackend cs (bareNet 0))"
    by blast
  have step: "lifetime toyBackend [MAddEdge 1 2, MAddEdge 2 3, MAddEdge 0 4, MAddEdge 3 4] (bareNet 0)
      = addEdge 3 4 (lifetime toyBackend [MAddEdge 1 2, MAddEdge 2 3, MAddEdge 0 4] (bareNet 0))"
    by (simp add: lifetime_def)
  from every [of "[MAddEdge 1 2, MAddEdge 2 3, MAddEdge 0 4]" 3 3 0 PASS_TRAIN]
    every [of "[MAddEdge 1 2, MAddEdge 2 3, MAddEdge 0 4, MAddEdge 3 4,
      MReset 0, MReset 1, MReset 2, MReset 3, MReset 4]" 3 3 0 PASS_TRAIN]
  show ?thesis unfolding step exNet_lifetime [of 0] by blast
qed

end
